theory Spec2Isabelle
  imports Complex_Main "HOL-Library.Signed_Division"
begin

section \<open>Data model\<close>

text \<open>
  The game computes with C++ \<^verbatim>\<open>float\<close> and \<^verbatim>\<open>int\<close>.  A \<^verbatim>\<open>float\<close> is modelled
  as a \<open>real\<close>: arithmetic is exact, rounding, infinities and NaN are outside the model.
  An \<^verbatim>\<open>int\<close> is modelled as an unbounded \<open>int\<close>; the values of the game (a score of
  at most a few hundred, screen sizes) stay far from the 32-bit limits.  Only the cast of
  a \<^verbatim>\<open>float\<close> to \<^verbatim>\<open>int\<close> can leave that range, since the configuration is free; it is
  modelled with the 32-bit range (\<open>to_int\<close>).  The two counts
  \<^verbatim>\<open>totalPlatforms\<close> and \<^verbatim>\<open>cloudCount\<close> are sizes of vectors and are modelled as \<open>nat\<close>
  (a negative count makes \<^verbatim>\<open>std::vector::resize\<close> throw before any game exists).

  One-letter field names of the source (\<^verbatim>\<open>x\<close>, \<^verbatim>\<open>y\<close>, \<^verbatim>\<open>w\<close>, \<^verbatim>\<open>h\<close>) carry the name of
  their struct as a prefix, since a record field is a global constant; the field
  \<^verbatim>\<open>totalPlatforms\<close> of \<^verbatim>\<open>GameConfig\<close> is \<open>cfgTotalPlatforms\<close>, the one of
  \<^verbatim>\<open>Level\<close> keeps its name.
\<close>

record game_config =
  screenWidth :: int
  screenHeight :: int
  radius :: real
  groundY :: real
  gravity :: real
  jumpVelocity :: real
  maxJumpHold :: real
  jumpHoldAccel :: real
  scrollSpeed :: real
  cfgTotalPlatforms :: nat
  minGap :: real
  maxGap :: real
  minPlatformWidth :: real
  maxPlatformWidth :: real
  platformHeight :: real
  minPlatformY :: real
  stepUpMin :: real
  stepUpMax :: real
  cloudCount :: nat

text \<open>The default member initialisers of \<^verbatim>\<open>struct GameConfig\<close> (Config.h).\<close>

definition default_config :: game_config where
  "default_config =
     \<lparr> screenWidth = 800, screenHeight = 450, radius = 20, groundY = 450 - 80,
       gravity = 1000, jumpVelocity = - 550, maxJumpHold = 0.25, jumpHoldAccel = - 1200,
       scrollSpeed = 220, cfgTotalPlatforms = 200, minGap = 260, maxGap = 420,
       minPlatformWidth = 120, maxPlatformWidth = 200, platformHeight = 14,
       minPlatformY = 20, stepUpMin = 15, stepUpMax = 35, cloudCount = 10 \<rparr>"

record platform =
  plat_x :: real
  yTop :: real
  width :: real
  counted :: bool

record cloud =
  cloud_x :: real
  cloud_y :: real
  cloud_w :: real
  cloud_h :: real
  speed :: real

text \<open>
  \<^verbatim>\<open>class Level\<close>: the platform count and the two vectors.  Every loop of the class
  runs \<^verbatim>\<open>for (int i = 0; i < totalPlatforms; i++)\<close> over \<^verbatim>\<open>platforms[i]\<close>; the model
  visits the first \<open>totalPlatforms\<close> entries of the list (\<open>visited\<close>) and leaves any
  further entry alone.  \<^verbatim>\<open>generate\<close> resizes the vector to exactly \<open>totalPlatforms\<close>
  entries and nothing changes its size afterwards, so in the running game \<open>visited\<close> is
  the whole vector.  (An index past the end of the vector is undefined behaviour in the
  source and is outside the model.)
\<close>

record level =
  totalPlatforms :: nat
  platforms :: "platform list"
  clouds :: "cloud list"

definition visited :: "level \<Rightarrow> platform list" where
  "visited L = take (totalPlatforms L) (platforms L)"

definition unvisited :: "level \<Rightarrow> platform list" where
  "unvisited L = drop (totalPlatforms L) (platforms L)"

section \<open>Level: landing resolution\<close>

text \<open>
  The condition of the inner \<^verbatim>\<open>if\<close> of \<^verbatim>\<open>Level::resolveLanding\<close>: the ball's bottom is
  at or below the platform top now, was at or above it in the previous frame, and the
  ball's centre is horizontally within the platform.
\<close>

definition crosses_top :: "real \<Rightarrow> real \<Rightarrow> real \<Rightarrow> real \<Rightarrow> platform \<Rightarrow> bool" where
  "crosses_top ballX prevY y r p \<longleftrightarrow>
     y + r \<ge> yTop p \<and> prevY + r \<le> yTop p \<and> plat_x p \<le> ballX \<and> plat_x p + width p \<ge> ballX"

text \<open>
  One iteration of the platform loop on the pair \<open>(targetY, landed)\<close>: a crossing
  platform replaces the target only when its top is strictly above it.
\<close>

definition landing_step ::
  "real \<Rightarrow> real \<Rightarrow> real \<Rightarrow> real \<Rightarrow> real \<times> bool \<Rightarrow> platform \<Rightarrow> real \<times> bool" where
  "landing_step ballX prevY y r acc p =
     (if crosses_top ballX prevY y r p \<and> yTop p < fst acc then (yTop p, True) else acc)"

definition landing_scan ::
  "real \<Rightarrow> real \<Rightarrow> real \<Rightarrow> real \<Rightarrow> real \<times> bool \<Rightarrow> platform list \<Rightarrow> real \<times> bool" where
  "landing_scan ballX prevY y r acc ps = foldl (landing_step ballX prevY y r) acc ps"

text \<open>
  \<^verbatim>\<open>Level::resolveLanding\<close>.  The by-reference parameters \<^verbatim>\<open>y\<close>, \<^verbatim>\<open>vy\<close> and
  \<^verbatim>\<open>landedOnGround\<close> are returned next to the result.
\<close>

record landing =
  landed :: bool
  landedOnGround :: bool
  new_y :: real
  new_vy :: real

definition resolveLanding ::
  "level \<Rightarrow> real \<Rightarrow> real \<Rightarrow> real \<Rightarrow> real \<Rightarrow> real \<Rightarrow> game_config \<Rightarrow> landing" where
  "resolveLanding L ballX prevY y v r cfg =
     (let (targetY, hit) =
            (if v \<ge> 0 then landing_scan ballX prevY y r (groundY cfg, False) (visited L)
             else (groundY cfg, False))
      in if hit then \<lparr> landed = True, landedOnGround = False, new_y = targetY - r, new_vy = 0 \<rparr>
         else if y > groundY cfg
           then \<lparr> landed = True, landedOnGround = True, new_y = groundY cfg, new_vy = 0 \<rparr>
           else \<lparr> landed = False, landedOnGround = False, new_y = y, new_vy = v \<rparr>)"

text \<open>
  Two notions for stating which platform wins.  \<open>crossing_tops\<close> lists, in index order,
  the tops of the platforms that satisfy the crossing condition.  \<open>takes_target\<close> says
  that iteration \<open>i\<close> of the loop executes the assignment \<^verbatim>\<open>targetY = top\<close>: platform
  \<open>i\<close> crosses and its top is strictly above the target left by the iterations before
  it (\<open>g\<close> is the initial target, the ground level).
\<close>

definition crossing_tops :: "real \<Rightarrow> real \<Rightarrow> real \<Rightarrow> real \<Rightarrow> platform list \<Rightarrow> real list" where
  "crossing_tops ballX prevY y r ps = map yTop (filter (crosses_top ballX prevY y r) ps)"

definition takes_target ::
  "real \<Rightarrow> real \<Rightarrow> real \<Rightarrow> real \<Rightarrow> real \<Rightarrow> platform list \<Rightarrow> nat \<Rightarrow> bool" where
  "takes_target ballX prevY y r g ps i \<longleftrightarrow>
     i < length ps \<and> crosses_top ballX prevY y r (ps ! i) \<and>
     yTop (ps ! i) < fst (landing_scan ballX prevY y r (g, False) (take i ps))"

section \<open>Level: collision and scoring\<close>

text \<open>
  The body of the loop of \<^verbatim>\<open>Level::checkCollision\<close>: the point of the rectangle
  \<open>[x, x + width] \<times> [yTop, yTop + platformHeight]\<close> closest to the ball's centre is
  strictly less than one radius away.
\<close>

definition hits :: "real \<Rightarrow> real \<Rightarrow> real \<Rightarrow> game_config \<Rightarrow> platform \<Rightarrow> bool" where
  "hits ballX ballY r cfg p =
     (let rx = plat_x p; ry = yTop p; rw = width p; rh = platformHeight cfg;
          closestX = (if ballX < rx then rx else if ballX > rx + rw then rx + rw else ballX);
          closestY = (if ballY < ry then ry else if ballY > ry + rh then ry + rh else ballY);
          dx = ballX - closestX;
          dy = ballY - closestY;
          distSq = dx * dx + dy * dy
      in distSq < r * r)"

fun hits_any :: "real \<Rightarrow> real \<Rightarrow> real \<Rightarrow> game_config \<Rightarrow> platform list \<Rightarrow> bool" where
  "hits_any ballX ballY r cfg [] = False"
| "hits_any ballX ballY r cfg (p # ps) =
     (if hits ballX ballY r cfg p then True else hits_any ballX ballY r cfg ps)"

definition checkCollision :: "level \<Rightarrow> real \<Rightarrow> real \<Rightarrow> real \<Rightarrow> game_config \<Rightarrow> bool" where
  "checkCollision L ballX ballY r cfg = hits_any ballX ballY r cfg (visited L)"

text \<open>
  \<^verbatim>\<open>Level::awardScore\<close>: the loop carries the counter \<^verbatim>\<open>gained\<close> and marks platforms
  in place; the model returns the counter and the updated level.
\<close>

definition passed :: "real \<Rightarrow> real \<Rightarrow> platform \<Rightarrow> bool" where
  "passed ballX r p \<longleftrightarrow> \<not> counted p \<and> plat_x p + width p < ballX - r"

fun award_loop :: "real \<Rightarrow> real \<Rightarrow> platform list \<Rightarrow> int \<Rightarrow> platform list \<times> int" where
  "award_loop ballX r [] gained = ([], gained)"
| "award_loop ballX r (p # ps) gained =
     (if passed ballX r p
      then (let (ps', g) = award_loop ballX r ps (gained + 1) in (p\<lparr>counted := True\<rparr> # ps', g))
      else (let (ps', g) = award_loop ballX r ps gained in (p # ps', g)))"

definition awardScore :: "level \<Rightarrow> real \<Rightarrow> real \<Rightarrow> int \<times> level" where
  "awardScore L ballX r =
     (let (ps, gained) = award_loop ballX r (visited L) 0
      in (gained, L\<lparr>platforms := ps @ unvisited L\<rparr>))"

text \<open>What one iteration of the scoring loop does to its platform.\<close>

definition mark :: "real \<Rightarrow> real \<Rightarrow> platform \<Rightarrow> platform" where
  "mark ballX r p = (if passed ballX r p then p\<lparr>counted := True\<rparr> else p)"

section \<open>Level: generation and scrolling\<close>

text \<open>
  \<^verbatim>\<open>GetRandomValue(min, max)\<close> belongs to the graphics library.  It is a parameter of
  the model: a function from the requested bounds and the generator's state to the value
  drawn and the next state.  \<open>rng_ok\<close> is the library's contract, a value between the two
  bounds (the library swaps them when \<open>min > max\<close>).
\<close>

type_synonym 's rng = "int \<Rightarrow> int \<Rightarrow> 's \<Rightarrow> int \<times> 's"

definition rng_ok :: "'s rng \<Rightarrow> bool" where
  "rng_ok rv \<longleftrightarrow> (\<forall>lo hi s. min lo hi \<le> fst (rv lo hi s) \<and> fst (rv lo hi s) \<le> max lo hi)"

text \<open>
  The cast \<^verbatim>\<open>(int)f\<close> of a \<^verbatim>\<open>float\<close> to the 32-bit \<^verbatim>\<open>int\<close> truncates towards zero.
  \<open>castable f\<close> says that the truncated value fits, that is
  \<open>-2147483648 \<le> trunc f \<le> 2147483647\<close>.  Outside that range the language leaves the cast
  undefined; the conversion instruction of the x86 processors then yields the least
  \<^verbatim>\<open>int\<close>, and so does \<open>to_int\<close>.
\<close>

definition castable :: "real \<Rightarrow> bool" where
  "castable f \<longleftrightarrow> - 2147483649 < f \<and> f < 2147483648"

definition to_int :: "real \<Rightarrow> int" where
  "to_int f = (if castable f then (if f \<ge> 0 then \<lfloor>f\<rfloor> else \<lceil>f\<rceil>) else - 2147483648)"

text \<open>
  The three draws of one platform, in the order of the source (gap, width, step), shared
  by \<^verbatim>\<open>generate\<close> and by the recycling loop of \<^verbatim>\<open>scroll\<close>.
\<close>

definition draw3 :: "'s rng \<Rightarrow> game_config \<Rightarrow> 's \<Rightarrow> (int \<times> int \<times> int) \<times> 's" where
  "draw3 rv cfg s =
     (let (gap, s1) = rv (to_int (minGap cfg)) (to_int (maxGap cfg)) s;
          (w, s2) = rv (to_int (minPlatformWidth cfg)) (to_int (maxPlatformWidth cfg)) s1;
          (step, s3) = rv (to_int (stepUpMin cfg)) (to_int (stepUpMax cfg)) s2
      in ((gap, w, step), s3))"

text \<open>
  The platform loop of \<^verbatim>\<open>Level::generate\<close>, with its two running variables \<^verbatim>\<open>cursor\<close>
  and \<^verbatim>\<open>yTop\<close>; the first argument counts the iterations left.
\<close>

fun gen_platforms ::
  "'s rng \<Rightarrow> game_config \<Rightarrow> nat \<Rightarrow> real \<Rightarrow> real \<Rightarrow> 's \<Rightarrow> platform list \<times> 's" where
  "gen_platforms rv cfg 0 cursor prevTop s = ([], s)"
| "gen_platforms rv cfg (Suc n) cursor prevTop s =
     (let ((gap, w, step), s') = draw3 rv cfg s;
          cursor' = cursor + of_int gap;
          newTop = max (minPlatformY cfg) (prevTop - of_int step);
          (ps, s'') = gen_platforms rv cfg n cursor' newTop s'
      in (\<lparr> plat_x = cursor', yTop = newTop, width = of_int w, counted = False \<rparr> # ps, s''))"

text \<open>The draws of one cloud of \<^verbatim>\<open>generate\<close>: x, y, width (height is 0.6 of it), speed.\<close>

fun gen_clouds :: "'s rng \<Rightarrow> game_config \<Rightarrow> nat \<Rightarrow> 's \<Rightarrow> cloud list \<times> 's" where
  "gen_clouds rv cfg 0 s = ([], s)"
| "gen_clouds rv cfg (Suc n) s =
     (let (cx, s1) = rv 0 (screenWidth cfg + 600) s;
          (cy, s2) = rv 40 (screenHeight cfg sdiv 2) s1;
          (cw, s3) = rv 70 130 s2;
          (sp, s4) = rv 15 35 s3;
          (cs, s5) = gen_clouds rv cfg n s4
      in (\<lparr> cloud_x = of_int cx, cloud_y = of_int cy, cloud_w = of_int cw,
             cloud_h = of_int cw * 0.6, speed = of_int sp \<rparr> # cs, s5))"

definition generate :: "'s rng \<Rightarrow> game_config \<Rightarrow> level \<Rightarrow> 's \<Rightarrow> level \<times> 's" where
  "generate rv cfg L s =
     (let startX = of_int (screenWidth cfg) + 200;
          (ps, s1) = gen_platforms rv cfg (totalPlatforms L) startX (groundY cfg - 20) s;
          (cs, s2) = gen_clouds rv cfg (cloudCount cfg) s1
      in (L\<lparr>platforms := ps, clouds := cs\<rparr>, s2))"

text \<open>
  The first loop of \<^verbatim>\<open>Level::scroll\<close>: every platform moves left by \<open>d\<close> and
  \<^verbatim>\<open>rightMost\<close> follows the largest left edge seen (it starts at 0).
\<close>

fun shift_all :: "real \<Rightarrow> platform list \<Rightarrow> real \<Rightarrow> platform list \<times> real" where
  "shift_all d [] rightMost = ([], rightMost)"
| "shift_all d (p # ps) rightMost =
     (let p' = p\<lparr>plat_x := plat_x p - d\<rparr>;
          rightMost' = (if plat_x p' > rightMost then plat_x p' else rightMost);
          (ps', rm) = shift_all d ps rightMost'
      in (p' # ps', rm))"

text \<open>
  The second loop: a platform whose right edge is left of \<open>-60\<close> gets new random
  properties and moves right of \<^verbatim>\<open>rightMost\<close>, which then becomes its left edge.
\<close>

fun recycle ::
  "'s rng \<Rightarrow> game_config \<Rightarrow> platform list \<Rightarrow> real \<Rightarrow> 's \<Rightarrow> platform list \<times> 's" where
  "recycle rv cfg [] rightMost s = ([], s)"
| "recycle rv cfg (p # ps) rightMost s =
     (if plat_x p + width p < - 60
      then (let ((gap, w, step), s') = draw3 rv cfg s;
                newY = max (minPlatformY cfg) (yTop p - of_int step);
                p' = \<lparr> plat_x = rightMost + of_int gap, yTop = newY, width = of_int w,
                       counted = False \<rparr>;
                (ps', s'') = recycle rv cfg ps (plat_x p') s'
            in (p' # ps', s''))
      else (let (ps', s') = recycle rv cfg ps rightMost s in (p # ps', s')))"

fun scroll_clouds :: "'s rng \<Rightarrow> real \<Rightarrow> game_config \<Rightarrow> cloud list \<Rightarrow> 's \<Rightarrow> cloud list \<times> 's" where
  "scroll_clouds rv dt cfg [] s = ([], s)"
| "scroll_clouds rv dt cfg (c # cs) s =
     (let c1 = c\<lparr>cloud_x := cloud_x c - speed c * dt\<rparr>
      in if cloud_x c1 + cloud_w c1 < - 40
         then (let (dx, s1) = rv 80 280 s;
                   (cy, s2) = rv 40 (screenHeight cfg sdiv 2) s1;
                   (cw, s3) = rv 70 130 s2;
                   (sp, s4) = rv 15 35 s3;
                   (cs', s5) = scroll_clouds rv dt cfg cs s4
               in (\<lparr> cloud_x = of_int (screenWidth cfg) + of_int dx, cloud_y = of_int cy,
                      cloud_w = of_int cw, cloud_h = of_int cw * 0.6, speed = of_int sp \<rparr> # cs',
                   s5))
         else (let (cs', s') = scroll_clouds rv dt cfg cs s in (c1 # cs', s')))"

definition scroll :: "'s rng \<Rightarrow> real \<Rightarrow> game_config \<Rightarrow> level \<Rightarrow> 's \<Rightarrow> level \<times> 's" where
  "scroll rv dt cfg L s =
     (let (ps1, rightMost) = shift_all (scrollSpeed cfg * dt) (visited L) 0;
          (ps2, s1) = recycle rv cfg ps1 rightMost s;
          (cs, s2) = scroll_clouds rv dt cfg (clouds L) s1
      in (L\<lparr>platforms := ps2 @ unvisited L, clouds := cs\<rparr>, s2))"

text \<open>
  The values the local variable \<^verbatim>\<open>rightMost\<close> has at the start of each iteration of
  the recycling loop, and the one it has when \<^verbatim>\<open>scroll\<close> reaches platform \<open>i\<close>.
\<close>

fun rightMost_seen :: "'s rng \<Rightarrow> game_config \<Rightarrow> platform list \<Rightarrow> real \<Rightarrow> 's \<Rightarrow> real list" where
  "rightMost_seen rv cfg [] rightMost s = []"
| "rightMost_seen rv cfg (p # ps) rightMost s =
     rightMost #
     (if plat_x p + width p < - 60
      then (let ((gap, w, step), s') = draw3 rv cfg s
            in rightMost_seen rv cfg ps (rightMost + of_int gap) s')
      else rightMost_seen rv cfg ps rightMost s)"

definition rightMost_before :: "'s rng \<Rightarrow> real \<Rightarrow> game_config \<Rightarrow> level \<Rightarrow> 's \<Rightarrow> nat \<Rightarrow> real" where
  "rightMost_before rv dt cfg L s i =
     (let (ps1, rightMost) = shift_all (scrollSpeed cfg * dt) (visited L) 0
      in rightMost_seen rv cfg ps1 rightMost s ! i)"

text \<open>
  The bounds that the level keeps for its platforms, and two conditions on the inputs of
  generation.  The step and the width are drawn between the casts of their configured
  bounds; \<open>draws_fit\<close> says that these four casts are defined, that the two integer step
  bounds are not negative, and that the two integer width bounds lie between
  \<open>minPlatformWidth\<close> and \<open>maxPlatformWidth\<close>.  \<open>gap_in_range\<close> says that every gap drawn
  lies between \<open>minGap\<close> and \<open>maxGap\<close>.
\<close>

definition in_bounds :: "game_config \<Rightarrow> platform \<Rightarrow> bool" where
  "in_bounds cfg p \<longleftrightarrow>
     minPlatformY cfg \<le> yTop p \<and> yTop p \<le> groundY cfg - 20 \<and>
     minPlatformWidth cfg \<le> width p \<and> width p \<le> maxPlatformWidth cfg"

definition all_in_bounds :: "game_config \<Rightarrow> platform list \<Rightarrow> bool" where
  "all_in_bounds cfg ps \<longleftrightarrow> list_all (in_bounds cfg) ps"

definition draws_fit :: "game_config \<Rightarrow> bool" where
  "draws_fit cfg \<longleftrightarrow>
     castable (stepUpMin cfg) \<and> castable (stepUpMax cfg) \<and>
     castable (minPlatformWidth cfg) \<and> castable (maxPlatformWidth cfg) \<and>
     0 \<le> to_int (stepUpMin cfg) \<and> 0 \<le> to_int (stepUpMax cfg) \<and>
     minPlatformWidth cfg \<le> of_int (to_int (minPlatformWidth cfg)) \<and>
     of_int (to_int (minPlatformWidth cfg)) \<le> maxPlatformWidth cfg \<and>
     minPlatformWidth cfg \<le> of_int (to_int (maxPlatformWidth cfg)) \<and>
     of_int (to_int (maxPlatformWidth cfg)) \<le> maxPlatformWidth cfg"

definition gap_in_range :: "'s rng \<Rightarrow> game_config \<Rightarrow> bool" where
  "gap_in_range rv cfg \<longleftrightarrow>
     (\<forall>s. minGap cfg \<le> of_int (fst (rv (to_int (minGap cfg)) (to_int (maxGap cfg)) s)) \<and>
          of_int (fst (rv (to_int (minGap cfg)) (to_int (maxGap cfg)) s)) \<le> maxGap cfg)"

section \<open>Player\<close>

record player =
  player_x :: real
  player_y :: real
  vy :: real
  rotation :: real
  jumpsRemaining :: int
  isJumping :: bool
  grounded :: bool
  hasLeftGround :: bool
  jumpHoldTimer :: real

text \<open>The default member initialisers of \<^verbatim>\<open>class Player\<close> (Player.h).\<close>

definition new_player :: player where
  "new_player =
     \<lparr> player_x = 0, player_y = 0, vy = 0, rotation = 0, jumpsRemaining = 2,
       isJumping = False, grounded = True, hasLeftGround = False, jumpHoldTimer = 0 \<rparr>"

text \<open>\<^verbatim>\<open>Player::reset\<close> assigns every field.\<close>

definition player_reset :: "game_config \<Rightarrow> player \<Rightarrow> player" where
  "player_reset cfg p =
     p\<lparr> player_x := of_int (screenWidth cfg) * 0.25, player_y := groundY cfg, vy := 0,
        rotation := 0, jumpsRemaining := 2, isJumping := False, grounded := True,
        hasLeftGround := False, jumpHoldTimer := 0 \<rparr>"

definition startJump :: "game_config \<Rightarrow> player \<Rightarrow> player" where
  "startJump cfg p =
     (if jumpsRemaining p \<le> 0 then p
      else p\<lparr> vy := jumpVelocity cfg, isJumping := True, grounded := False,
              hasLeftGround := True, jumpsRemaining := jumpsRemaining p - 1,
              jumpHoldTimer := 0 \<rparr>)"

text \<open>
  \<^verbatim>\<open>Player::update\<close>.  The keyboard query \<^verbatim>\<open>IsKeyDown(KEY_SPACE)\<close> is the input
  \<open>spaceDown\<close>.  The wrap of the rotation is the single \<^verbatim>\<open>if\<close> of the source.
\<close>

definition player_update :: "real \<Rightarrow> bool \<Rightarrow> game_config \<Rightarrow> player \<Rightarrow> player" where
  "player_update dt spaceDown cfg p =
     (let p1 = p\<lparr>vy := vy p + gravity cfg * dt\<rparr>;
          p2 = (if spaceDown \<and> isJumping p1 \<and> jumpHoldTimer p1 < maxJumpHold cfg
                then p1\<lparr>vy := vy p1 + jumpHoldAccel cfg * dt,
                        jumpHoldTimer := jumpHoldTimer p1 + dt\<rparr>
                else p1);
          p3 = p2\<lparr>player_y := player_y p2 + vy p2 * dt\<rparr>;
          p4 = p3\<lparr>rotation := rotation p3 + 630 * dt\<rparr>
      in if rotation p4 \<ge> 360 then p4\<lparr>rotation := rotation p4 - 360\<rparr> else p4)"

definition canJump :: "player \<Rightarrow> bool" where
  "canJump p \<longleftrightarrow> jumpsRemaining p > 0"

definition setGrounded :: "bool \<Rightarrow> player \<Rightarrow> player" where
  "setGrounded groundedState p =
     (let p1 = p\<lparr>grounded := groundedState\<rparr>
      in if groundedState then p1\<lparr>isJumping := False, jumpsRemaining := 2\<rparr> else p1)"

definition hasJumpedOnce :: "player \<Rightarrow> bool" where
  "hasJumpedOnce p \<longleftrightarrow> hasLeftGround p"

section \<open>Game\<close>

record game =
  config :: game_config
  ball :: player
  world :: level
  score :: int
  gameOver :: bool
  levelComplete :: bool
  cameraOffsetY :: real

text \<open>
  The members \<^verbatim>\<open>player\<close> and \<^verbatim>\<open>level\<close> of \<^verbatim>\<open>class Game\<close> are the fields \<open>ball\<close> and
  \<open>world\<close> (their names are those of the record types).  The constructor builds the
  level from \<^verbatim>\<open>config.totalPlatforms\<close>; \<^verbatim>\<open>Game::run\<close> then multiplies three physics
  constants by \<^verbatim>\<open>GetScreenHeight() / 450.0f\<close> and calls \<^verbatim>\<open>reset\<close>.
\<close>

definition new_game :: game where
  "new_game =
     \<lparr> config = default_config, ball = new_player,
       world = \<lparr> totalPlatforms = cfgTotalPlatforms default_config, platforms = [], clouds = [] \<rparr>,
       score = 0, gameOver = False, levelComplete = False, cameraOffsetY = 0 \<rparr>"

definition scale_physics :: "int \<Rightarrow> game \<Rightarrow> game" where
  "scale_physics screenH g =
     (let heightScale = of_int screenH / 450; cfg = config g
      in g\<lparr>config := cfg\<lparr> gravity := gravity cfg * heightScale,
                           jumpVelocity := jumpVelocity cfg * heightScale,
                           jumpHoldAccel := jumpHoldAccel cfg * heightScale \<rparr>\<rparr>)"

definition reset :: "'s rng \<Rightarrow> game \<times> 's \<Rightarrow> game \<times> 's" where
  "reset rv gs =
     (let (g, s) = gs;
          (L, s') = generate rv (config g) (world g) s
      in (g\<lparr> ball := player_reset (config g) (ball g), world := L, score := 0,
             gameOver := False, levelComplete := False, cameraOffsetY := 0 \<rparr>, s'))"

text \<open>
  \<^verbatim>\<open>Game::handleInput\<close>; \<^verbatim>\<open>IsKeyPressed(KEY_SPACE)\<close> is the input \<open>spacePressed\<close>.
\<close>

definition handleInput :: "'s rng \<Rightarrow> bool \<Rightarrow> game \<times> 's \<Rightarrow> game \<times> 's" where
  "handleInput rv spacePressed gs =
     (let (g, s) = gs
      in if gameOver g \<or> levelComplete g
         then (if spacePressed then reset rv gs else gs)
         else if canJump (ball g) \<and> spacePressed
           then (g\<lparr>ball := startJump (config g) (ball g)\<rparr>, s)
           else gs)"

text \<open>
  The first half of \<^verbatim>\<open>Game::update\<close>, up to the call of \<^verbatim>\<open>resolveLanding\<close>: the
  player after \<^verbatim>\<open>player.update\<close>, the level after \<^verbatim>\<open>level.scroll\<close>, and the landing
  that \<^verbatim>\<open>resolveLanding\<close> reports for them.
\<close>

definition moved_ball :: "real \<Rightarrow> bool \<Rightarrow> game \<Rightarrow> player" where
  "moved_ball dt spaceDown g = player_update dt spaceDown (config g) (ball g)"

definition scrolled :: "'s rng \<Rightarrow> real \<Rightarrow> game \<times> 's \<Rightarrow> level \<times> 's" where
  "scrolled rv dt gs = scroll rv dt (config (fst gs)) (world (fst gs)) (snd gs)"

definition frame_landing :: "'s rng \<Rightarrow> real \<Rightarrow> bool \<Rightarrow> game \<times> 's \<Rightarrow> landing" where
  "frame_landing rv dt spaceDown gs =
     (let g = fst gs; p1 = moved_ball dt spaceDown g
      in resolveLanding (fst (scrolled rv dt gs)) (player_x p1) (player_y (ball g))
           (player_y p1) (vy p1) (radius (config g)) (config g))"

text \<open>
  \<^verbatim>\<open>Game::update\<close>.  \<^verbatim>\<open>GetFrameTime()\<close> is the input \<open>dt\<close>.  The three tests that set
  a flag come in the order of the source: ground touch, score, collision.
\<close>

definition update :: "'s rng \<Rightarrow> real \<Rightarrow> bool \<Rightarrow> game \<times> 's \<Rightarrow> game \<times> 's" where
  "update rv dt spaceDown gs =
     (let (g, s) = gs
      in if gameOver g \<or> levelComplete g then gs
         else
           (let cfg = config g;
                p1 = moved_ball dt spaceDown g;
                (L1, s1) = scrolled rv dt gs;
                ld = frame_landing rv dt spaceDown gs;
                p2 = setGrounded (landed ld) (p1\<lparr>player_y := new_y ld, vy := new_vy ld\<rparr>);
                desiredScreenY = of_int (screenHeight cfg) * 0.4;
                cam = min 0 (player_y p2 - desiredScreenY);
                over1 = (if landedOnGround ld \<and> hasJumpedOnce p2 then True else gameOver g);
                (gained, L2) = awardScore L1 (player_x p2) (radius cfg);
                score' = score g + gained;
                complete = (if score' \<ge> int (cfgTotalPlatforms cfg) then True
                            else levelComplete g);
                over2 = (if checkCollision L2 (player_x p2) (player_y p2) (radius cfg) cfg
                         then True else over1)
            in (g\<lparr> ball := p2, world := L2, score := score', gameOver := over2,
                   levelComplete := complete, cameraOffsetY := cam \<rparr>, s1)))"

text \<open>
  One iteration of the main loop of \<^verbatim>\<open>Game::run\<close> (drawing changes no state), and the
  states the loop can reach from the \<^verbatim>\<open>reset\<close> that precedes it.
\<close>

definition frame :: "'s rng \<Rightarrow> bool \<Rightarrow> bool \<Rightarrow> real \<Rightarrow> game \<times> 's \<Rightarrow> game \<times> 's" where
  "frame rv spacePressed spaceDown dt gs = update rv dt spaceDown (handleInput rv spacePressed gs)"

definition start :: "'s rng \<Rightarrow> int \<Rightarrow> 's \<Rightarrow> game \<times> 's" where
  "start rv screenH s = reset rv (scale_physics screenH new_game, s)"

inductive reachable :: "'s rng \<Rightarrow> game \<times> 's \<Rightarrow> bool" for rv :: "'s rng" where
  reachable_start: "reachable rv (start rv screenH s)"
| reachable_frame: "reachable rv gs \<Longrightarrow> reachable rv (frame rv spacePressed spaceDown dt gs)"

section \<open>Invariants of the running game\<close>

text \<open>
  \<open>standard cfg\<close>: the configuration is the default one except for the three physics
  constants that \<^verbatim>\<open>Game::run\<close> scales.  \<open>apart\<close>: the left edges of two platforms are at
  least \<open>minGap\<close> from each other.  \<open>level_inv\<close>: the visited platforms are within their
  bounds and pairwise apart.  \<open>game_inv\<close> puts the two together.
\<close>

definition apart :: "game_config \<Rightarrow> platform \<Rightarrow> platform \<Rightarrow> bool" where
  "apart cfg p q \<longleftrightarrow> minGap cfg \<le> \<bar>plat_x p - plat_x q\<bar>"

definition standard :: "game_config \<Rightarrow> bool" where
  "standard cfg \<longleftrightarrow>
     cfg\<lparr>gravity := 0, jumpVelocity := 0, jumpHoldAccel := 0\<rparr> =
     default_config\<lparr>gravity := 0, jumpVelocity := 0, jumpHoldAccel := 0\<rparr>"

definition level_inv :: "game_config \<Rightarrow> level \<Rightarrow> bool" where
  "level_inv cfg L \<longleftrightarrow>
     list_all (in_bounds cfg) (visited L) \<and> sorted_wrt (apart cfg) (visited L)"

definition game_inv :: "game \<Rightarrow> bool" where
  "game_inv g \<longleftrightarrow> standard (config g) \<and> level_inv (config g) (world g)"

section \<open>Concrete inputs\<close>

text \<open>
  Inputs at which the theorems below are instantiated: a generator that always returns
  the lower bound, small levels, and a game at rest on the ground.
\<close>

definition lowest_draw :: "unit rng" where
  "lowest_draw lo hi s = (min lo hi, s)"

definition one_platform :: level where
  "one_platform = \<lparr> totalPlatforms = 1,
      platforms = [\<lparr> plat_x = 100, yTop = 370, width = 200, counted = False \<rparr>], clouds = [] \<rparr>"

definition tied_platforms :: level where
  "tied_platforms = \<lparr> totalPlatforms = 3,
      platforms = [\<lparr> plat_x = 100, yTop = 330, width = 200, counted = False \<rparr>,
                   \<lparr> plat_x = 150, yTop = 320, width = 120, counted = False \<rparr>,
                   \<lparr> plat_x = 180, yTop = 320, width = 150, counted = True \<rparr>], clouds = [] \<rparr>"

definition resting_game :: game where
  "resting_game =
     \<lparr> config = default_config, ball = player_reset default_config new_player,
       world = \<lparr> totalPlatforms = 1,
                 platforms = [\<lparr> plat_x = 1260, yTop = 335, width = 120, counted = False \<rparr>],
                 clouds = [] \<rparr>,
       score = 0, gameOver = False, levelComplete = False, cameraOffsetY = 0 \<rparr>"

definition empty_level :: level where
  "empty_level = \<lparr> totalPlatforms = 2, platforms = [], clouds = [] \<rparr>"

definition leaving_level :: level where
  "leaving_level = \<lparr> totalPlatforms = 2,
      platforms = [\<lparr> plat_x = 0, yTop = 335, width = 120, counted = True \<rparr>,
                   \<lparr> plat_x = 300, yTop = 320, width = 150, counted = False \<rparr>],
      clouds = [\<lparr> cloud_x = 10, cloud_y = 50, cloud_w = 100, cloud_h = 60, speed = 20 \<rparr>] \<rparr>"

definition stepping_down :: game_config where
  "stepping_down = default_config \<lparr> stepUpMin := - 10 \<rparr>"

definition overwide :: game_config where
  "overwide = default_config \<lparr> maxPlatformWidth := 3000000000 \<rparr>"

text \<open>
  A run of the game under \<open>lowest_draw\<close> in which the player never jumps and every frame
  lasts 13/11 of a second, so that the level moves by 260, the distance between two
  platforms.  \<open>slot kpos kflag i p\<close> describes platform \<open>i\<close> of that run: before it is
  recycled, its fields after \<open>kpos\<close> shifts and \<open>kflag\<close> scoring passes; after it is
  recycled, a lower bound on its position.  \<open>idle_game k\<close> describes the game after \<open>k\<close>
  such frames, and \<open>idle_run k\<close> is the state that the main loop reaches by them.
\<close>

definition slot :: "nat \<Rightarrow> nat \<Rightarrow> nat \<Rightarrow> platform \<Rightarrow> bool" where
  "slot kpos kflag i p \<longleftrightarrow>
     (if kpos < i + 6
      then p = \<lparr> plat_x = 1260 + 260 * real i - 260 * real kpos,
                 yTop = max 20 (335 - 15 * real i), width = 120,
                 counted = (i + 5 \<le> kflag) \<rparr>
      else in_bounds default_config p \<and> \<not> counted p \<and>
           53260 - 260 * real kpos \<le> plat_x p)"

definition slots :: "nat \<Rightarrow> nat \<Rightarrow> platform list \<Rightarrow> bool" where
  "slots kpos kflag ps \<longleftrightarrow> length ps = 200 \<and> (\<forall>i<200. slot kpos kflag i (ps ! i))"

definition idle_game :: "nat \<Rightarrow> game \<Rightarrow> bool" where
  "idle_game k g \<longleftrightarrow>
     config g = default_config \<and> \<not> gameOver g \<and> \<not> levelComplete g \<and>
     score g = (if 4 \<le> k then int k - 4 else 0) \<and>
     player_x (ball g) = 200 \<and> player_y (ball g) = 370 \<and> vy (ball g) = 0 \<and>
     \<not> hasLeftGround (ball g) \<and> jumpsRemaining (ball g) = 2 \<and>
     totalPlatforms (world g) = 200 \<and> slots k k (platforms (world g))"

definition idle_run :: "nat \<Rightarrow> game \<times> unit" where
  "idle_run k = ((frame lowest_draw False False (13 / 11)) ^^ k) (start lowest_draw 450 ())"

text \<open>
  A run in which the ball lands on the first platform: the player jumps in a first frame
  of 1/5 s (\<open>takeoff\<close>) and falls onto the platform in a second frame of 5 s.
  \<open>early d\<close> describes the platforms of the generated level after a total shift \<open>d\<close>,
  as long as none has been recycled or counted.
\<close>

definition early :: "real \<Rightarrow> platform list \<Rightarrow> bool" where
  "early d ps \<longleftrightarrow>
     length ps = 200 \<and>
     (\<forall>i<200. ps ! i = \<lparr> plat_x = 1260 - d + 260 * real i,
                          yTop = max 20 (335 - 15 * real i), width = 120, counted = False \<rparr>)"

definition takeoff :: "game \<times> unit" where
  "takeoff = frame lowest_draw True False (1 / 5) (start lowest_draw 450 ())"

definition landing_platform :: platform where
  "landing_platform = \<lparr> plat_x = 116, yTop = 335, width = 120, counted = False \<rparr>"

section \<open>Properties of landing resolution\<close>

lemma Min_absorb:
  fixes a b :: real
  shows "finite A \<Longrightarrow> a \<le> b \<Longrightarrow> Min (insert a (insert b A)) = Min (insert a A)"
  by (cases "A = {}") (auto simp: min_def)

lemma Min_absorb2:
  fixes a b :: real
  shows "finite A \<Longrightarrow> b < a \<Longrightarrow> Min (insert a (insert b A)) = Min (insert b A)"
  by (cases "A = {}") (auto simp: min_def)

lemma landing_scan_Min:
  "landing_scan ballX prevY y r (t, b) ps =
     (Min (insert t (set (crossing_tops ballX prevY y r ps))),
      b \<or> (\<exists>q \<in> set (crossing_tops ballX prevY y r ps). q < t))"
proof (induction ps arbitrary: t b)
  case Nil
  then show ?case by (simp add: landing_scan_def crossing_tops_def)
next
  case (Cons p ps)
  let ?Q = "set (crossing_tops ballX prevY y r ps)"
  have fin: "finite ?Q" by simp
  show ?case
  proof (cases "crosses_top ballX prevY y r p")
    case cr: True
    have S: "set (crossing_tops ballX prevY y r (p # ps)) = insert (yTop p) ?Q"
      using cr by (simp add: crossing_tops_def)
    show ?thesis
    proof (cases "yTop p < t")
      case True
      have "landing_scan ballX prevY y r (t, b) (p # ps) = landing_scan ballX prevY y r (yTop p, True) ps"
        using True cr by (simp add: landing_scan_def landing_step_def)
      also have "\<dots> = (Min (insert (yTop p) ?Q), True)"
        using Cons.IH by simp
      finally show ?thesis using True
        by (simp add: S Min_absorb2[OF fin True] del: Min_insert)
    next
      case False
      have "landing_scan ballX prevY y r (t, b) (p # ps) = landing_scan ballX prevY y r (t, b) ps"
        using False by (simp add: landing_scan_def landing_step_def)
      then show ?thesis using Cons.IH False Min_absorb[OF fin, of t "yTop p"]
        by (simp add: S del: Min_insert)
    qed
  next
    case False
    have S: "crossing_tops ballX prevY y r (p # ps) = crossing_tops ballX prevY y r ps"
      using False by (simp add: crossing_tops_def)
    have "landing_scan ballX prevY y r (t, b) (p # ps) = landing_scan ballX prevY y r (t, b) ps"
      using False by (simp add: landing_scan_def landing_step_def)
    then show ?thesis using Cons.IH False by (simp add: S)
  qed
qed

lemma crossing_tops_take:
  "t \<in> set (crossing_tops ballX prevY y r (take j ps)) \<longleftrightarrow>
     (\<exists>k. k < j \<and> k < length ps \<and> crosses_top ballX prevY y r (ps ! k) \<and> yTop (ps ! k) = t)"
proof -
  have "take j ps = take (min j (length ps)) ps" by (simp add: min_def)
  then have "set (take j ps) = (!) ps ` {0..<min j (length ps)}"
    using nth_image[of "min j (length ps)" ps] by simp
  then show ?thesis by (auto simp: crossing_tops_def)
qed

lemma crossing_tops_nth:
  "t \<in> set (crossing_tops ballX prevY y r ps) \<longleftrightarrow>
     (\<exists>k. k < length ps \<and> crosses_top ballX prevY y r (ps ! k) \<and> yTop (ps ! k) = t)"
  by (auto simp: crossing_tops_def in_set_conv_nth)

lemma resolveLanding_on_platform:
  assumes v: "0 \<le> v"
    and ne: "crossing_tops ballX prevY y r (visited L) \<noteq> []"
    and lt: "Min (set (crossing_tops ballX prevY y r (visited L))) < groundY cfg"
  shows "resolveLanding L ballX prevY y v r cfg =
           \<lparr> landed = True, landedOnGround = False,
             new_y = Min (set (crossing_tops ballX prevY y r (visited L))) - r, new_vy = 0 \<rparr>"
proof -
  let ?C = "set (crossing_tops ballX prevY y r (visited L))"
  have fin: "finite ?C" and ne': "?C \<noteq> {}" using ne by auto
  have mem: "Min ?C \<in> ?C" using fin ne' by (rule Min_in)
  have "Min (insert (groundY cfg) ?C) = min (groundY cfg) (Min ?C)"
    using fin ne' by simp
  then have m: "Min (insert (groundY cfg) ?C) = Min ?C" using lt by simp
  have ex: "\<exists>q\<in>?C. q < groundY cfg" using mem lt by blast
  show ?thesis
    using v ex by (simp add: resolveLanding_def landing_scan_Min m del: Min_insert)
qed

lemma first_highest_takes_target:
  assumes lt: "Min (set (crossing_tops ballX prevY y r ps)) < g"
    and i: "i < length ps" "crosses_top ballX prevY y r (ps ! i)"
       "yTop (ps ! i) = Min (set (crossing_tops ballX prevY y r ps))"
    and first: "\<forall>j<i. \<not> (crosses_top ballX prevY y r (ps ! j) \<and> yTop (ps ! j) = yTop (ps ! i))"
  shows "takes_target ballX prevY y r g ps i \<and> (\<forall>j>i. \<not> takes_target ballX prevY y r g ps j)"
proof -
  let ?C = "set (crossing_tops ballX prevY y r ps)"
  let ?m = "Min ?C"
  have fin: "finite ?C" by simp
  have lower: "?m \<le> t" if "t \<in> ?C" for t using that fin by simp
  have 1: "yTop (ps ! i) < fst (landing_scan ballX prevY y r (g, False) (take i ps))"
  proof -
    let ?D = "set (crossing_tops ballX prevY y r (take i ps))"
    have "?m < t" if "t \<in> ?D" for t
    proof -
      from that obtain k where k: "k < i" "k < length ps" "crosses_top ballX prevY y r (ps ! k)" "yTop (ps ! k) = t"
        unfolding crossing_tops_take by blast
      then have "t \<in> ?C" unfolding crossing_tops_nth by blast
      then have "?m \<le> t" by (rule lower)
      moreover have "t \<noteq> ?m" using first k i(3) by auto
      ultimately show ?thesis by simp
    qed
    then have "\<forall>t \<in> insert g ?D. ?m < t" using lt by auto
    then have "?m < Min (insert g ?D)" by (subst Min_gr_iff) auto
    then show ?thesis by (simp add: landing_scan_Min i(3) del: Min_insert)
  qed
  have 2: "\<not> takes_target ballX prevY y r g ps j" if "i < j" for j
  proof
    assume t: "takes_target ballX prevY y r g ps j"
    let ?D = "set (crossing_tops ballX prevY y r (take j ps))"
    have "?m \<in> ?D" unfolding crossing_tops_take using i that by (intro exI[of _ i]) simp
    then have "Min (insert g ?D) \<le> ?m" by (intro Min_le) auto
    moreover have "yTop (ps ! j) \<in> ?C" using t unfolding crossing_tops_nth takes_target_def by blast
    then have "?m \<le> yTop (ps ! j)" by (rule lower)
    moreover have "yTop (ps ! j) < Min (insert g ?D)"
      using t by (simp only: takes_target_def landing_scan_Min fst_conv)
    ultimately show False by simp
  qed
  show ?thesis using 1 2 i by (simp add: takes_target_def)
qed

text \<open>
  Claim C2, as amended.  A call with \<open>vy < 0\<close> skips the platform loop, but the ground
  test that follows the loop is not guarded by the velocity: when \<open>y \<le> groundY\<close> the call
  returns \<open>landed = false\<close>, \<open>landedOnGround = false\<close> and leaves \<open>y\<close> and \<open>vy\<close> as they
  were, and when \<open>y > groundY\<close> it snaps the ball to the ground (\<open>y = groundY\<close>,
  \<open>vy = 0\<close>, \<open>landed = landedOnGround = true\<close>), whatever the platforms are.
\<close>

theorem resolveLanding_upward:
  "v < 0 \<Longrightarrow> resolveLanding L ballX prevY y v r cfg =
     (if y > groundY cfg
      then \<lparr> landed = True, landedOnGround = True, new_y = groundY cfg, new_vy = 0 \<rparr>
      else \<lparr> landed = False, landedOnGround = False, new_y = y, new_vy = v \<rparr>)"
  by (simp add: resolveLanding_def)

theorem resolveLanding_upward_witness:
  "(- 550 :: real) < 0 \<and>
   resolveLanding one_platform 200 370 315 (- 550) 20 default_config =
     \<lparr> landed = False, landedOnGround = False, new_y = 315, new_vy = - 550 \<rparr>"
  using resolveLanding_upward [of "- 550" one_platform 200 370 315 20 default_config]
  by (simp add: default_config_def)

text \<open>
  The claim as written fails: an upward-moving ball below the ground level is snapped
  to the ground.
\<close>

theorem resolveLanding_upward_counterexample:
  "(- 1 :: real) < 0 \<and>
   resolveLanding one_platform 200 380 371 (- 1) 20 default_config =
     \<lparr> landed = True, landedOnGround = True, new_y = 370, new_vy = 0 \<rparr>"
  by (simp add: resolveLanding_def default_config_def)

text \<open>
  Claim C10.  Whenever \<^verbatim>\<open>resolveLanding\<close> returns \<open>landed = false\<close>, the by-reference
  parameters \<open>y\<close> and \<open>vy\<close> keep their values and \<open>landedOnGround\<close> is false.
\<close>

theorem resolveLanding_not_landed:
  "landed (resolveLanding L ballX prevY y v r cfg) = False \<Longrightarrow>
     new_y (resolveLanding L ballX prevY y v r cfg) = y \<and>
     new_vy (resolveLanding L ballX prevY y v r cfg) = v \<and>
     landedOnGround (resolveLanding L ballX prevY y v r cfg) = False"
  by (auto simp: resolveLanding_def Let_def split: prod.splits if_splits)

theorem resolveLanding_not_landed_witness:
  "landed (resolveLanding tied_platforms 200 200 210 100 20 default_config) = False \<and>
   new_y (resolveLanding tied_platforms 200 200 210 100 20 default_config) = 210 \<and>
   new_vy (resolveLanding tied_platforms 200 200 210 100 20 default_config) = 100 \<and>
   landedOnGround (resolveLanding tied_platforms 200 200 210 100 20 default_config) = False"
proof -
  have h: "landed (resolveLanding tied_platforms 200 200 210 100 20 default_config) = False"
    by (simp add: resolveLanding_def tied_platforms_def visited_def landing_scan_def
        landing_step_def crosses_top_def default_config_def)
  show ?thesis using h resolveLanding_not_landed [OF h] by simp
qed

text \<open>
  Claim C3, as amended.  For a call with \<open>vy \<ge> 0\<close> in which at least one crossing
  platform has its top strictly above the ground level, the ball lands on the smallest
  top among all crossing platforms: \<open>y\<close> becomes that top minus the radius, \<open>vy\<close>
  becomes 0, \<open>landed\<close> is true and \<open>landedOnGround\<close> false.  On a tie the first platform
  in index order wins: the first crossing platform with the smallest top is the one
  whose iteration assigns the target, and no later iteration assigns it again.
\<close>

theorem resolveLanding_highest:
  assumes "0 \<le> v"
    and "\<exists>p \<in> set (visited L). crosses_top ballX prevY y r p \<and> yTop p < groundY cfg"
  shows "resolveLanding L ballX prevY y v r cfg =
           \<lparr> landed = True, landedOnGround = False,
             new_y = Min (set (crossing_tops ballX prevY y r (visited L))) - r, new_vy = 0 \<rparr>
         \<and> (\<forall>i. i < length (visited L) \<and> crosses_top ballX prevY y r (visited L ! i) \<and>
                 yTop (visited L ! i) = Min (set (crossing_tops ballX prevY y r (visited L))) \<and>
                 (\<forall>j<i. \<not> (crosses_top ballX prevY y r (visited L ! j) \<and>
                            yTop (visited L ! j) = yTop (visited L ! i)))
              \<longrightarrow> takes_target ballX prevY y r (groundY cfg) (visited L) i \<and>
                  (\<forall>j>i. \<not> takes_target ballX prevY y r (groundY cfg) (visited L) j))"
proof -
  let ?C = "set (crossing_tops ballX prevY y r (visited L))"
  from assms(2) obtain p where p: "p \<in> set (visited L)" "crosses_top ballX prevY y r p"
    "yTop p < groundY cfg" by blast
  then have mem: "yTop p \<in> ?C" by (auto simp: crossing_tops_def)
  then have ne: "crossing_tops ballX prevY y r (visited L) \<noteq> []" by auto
  have "Min ?C \<le> yTop p" using mem by simp
  then have lt: "Min ?C < groundY cfg" using p(3) by simp
  show ?thesis
    using resolveLanding_on_platform[OF assms(1) ne lt] first_highest_takes_target[OF lt]
    by blast
qed

theorem resolveLanding_highest_witness:
  "(0::real) \<le> 100 \<and>
   (\<exists>p \<in> set (visited tied_platforms). crosses_top 200 295 305 20 p \<and> yTop p < groundY default_config) \<and>
   resolveLanding tied_platforms 200 295 305 100 20 default_config =
     \<lparr> landed = True, landedOnGround = False, new_y = 300, new_vy = 0 \<rparr> \<and>
   takes_target 200 295 305 20 (groundY default_config) (visited tied_platforms) 1 \<and>
   \<not> takes_target 200 295 305 20 (groundY default_config) (visited tied_platforms) 2"
proof -
  have v: "visited tied_platforms = platforms tied_platforms"
    by (simp add: visited_def tied_platforms_def)
  have h1: "(0::real) \<le> 100" by simp
  have h2: "\<exists>p \<in> set (visited tied_platforms). crosses_top 200 295 305 20 p \<and> yTop p < groundY default_config"
    unfolding v by (simp add: tied_platforms_def crosses_top_def default_config_def)
  have m: "Min (set (crossing_tops 200 295 305 20 (visited tied_platforms))) = 320"
    unfolding v by (simp add: tied_platforms_def crossing_tops_def crosses_top_def)
  have h3: "1 < length (visited tied_platforms) \<and> crosses_top 200 295 305 20 (visited tied_platforms ! 1) \<and>
        yTop (visited tied_platforms ! 1) = Min (set (crossing_tops 200 295 305 20 (visited tied_platforms))) \<and>
        (\<forall>j<1. \<not> (crosses_top 200 295 305 20 (visited tied_platforms ! j) \<and>
                            yTop (visited tied_platforms ! j) = yTop (visited tied_platforms ! 1)))"
    unfolding m unfolding v by (simp add: tied_platforms_def crosses_top_def)
  from resolveLanding_highest [OF h1 h2] h3 h1 h2 show ?thesis
    unfolding m by auto
qed

text \<open>
  The claim as written fails for a crossing platform whose top is not strictly above
  the ground level: the target starts at \<open>groundY\<close> and only a strictly smaller top
  replaces it, so nothing is landed on.
\<close>

theorem resolveLanding_highest_counterexample:
  "(0::real) \<le> 10 \<and>
   crosses_top 200 340 360 20 (visited one_platform ! 0) \<and>
   resolveLanding one_platform 200 340 360 10 20 default_config =
     \<lparr> landed = False, landedOnGround = False, new_y = 360, new_vy = 10 \<rparr>"
  by (simp add: resolveLanding_def one_platform_def visited_def landing_scan_def
        landing_step_def crosses_top_def default_config_def)

section \<open>Properties of scoring\<close>

lemma award_loop_eq:
  "award_loop ballX r ps gained =
     (map (mark ballX r) ps, gained + int (length (filter (passed ballX r) ps)))"
  by (induction ps arbitrary: gained) (simp_all add: mark_def)

lemma passed_mark: "\<not> passed ballX r (mark ballX r p)"
  by (simp add: mark_def passed_def)

lemma visited_award: "visited (snd (awardScore L ballX r)) = map (mark ballX r) (visited L)"
  by (auto simp: awardScore_def award_loop_eq visited_def unvisited_def)

text \<open>
  Claim C7.  \<^verbatim>\<open>awardScore\<close> returns the number of visited platforms that are not yet
  counted and whose right edge is strictly left of \<open>ballX - radius\<close>, a non-negative
  number; it marks exactly those platforms counted and changes nothing else; and a
  second call with the same arguments on the resulting level returns 0 and changes
  nothing.
\<close>

theorem awardScore_single_fire:
  "awardScore L ballX r =
     (int (length (filter (passed ballX r) (visited L))),
      L\<lparr>platforms := map (mark ballX r) (visited L) @ unvisited L\<rparr>)
   \<and> 0 \<le> fst (awardScore L ballX r)
   \<and> awardScore (snd (awardScore L ballX r)) ballX r = (0, snd (awardScore L ballX r))"
proof -
  let ?L' = "L\<lparr>platforms := map (mark ballX r) (visited L) @ unvisited L\<rparr>"
  have a: "awardScore L ballX r = (int (length (filter (passed ballX r) (visited L))), ?L')"
    by (simp add: awardScore_def award_loop_eq)
  have v: "visited ?L' = map (mark ballX r) (visited L)"
    using visited_award[of L ballX r] a by simp
  have u: "unvisited ?L' = unvisited L"
    by (simp add: visited_def unvisited_def min_def)
  have f: "filter (passed ballX r) (map (mark ballX r) ps) = []" for ps
    by (induction ps) (simp_all add: passed_mark)
  have m: "map (mark ballX r \<circ> mark ballX r) ps = map (mark ballX r) ps" for ps
    by (induction ps) (simp_all add: mark_def passed_def)
  have b: "awardScore ?L' ballX r = (0, ?L')"
    by (simp add: awardScore_def award_loop_eq v u f m)
  show ?thesis using a b by simp
qed

section \<open>Properties of the player\<close>

lemma player_update_rotation_short_frame:
  assumes "0 \<le> rotation p" "rotation p < 360" "0 \<le> dt" "630 * dt < 360"
  shows "0 \<le> rotation (player_update dt spaceDown cfg p) \<and>
         rotation (player_update dt spaceDown cfg p) < 360"
  using assms by (simp add: player_update_def Let_def)

text \<open>
  Claim C9 (for every \<open>dt \<ge> 0\<close>, a rotation in \<open>[0, 360)\<close> stays in \<open>[0, 360)\<close>) does not
  hold of the code: \<^verbatim>\<open>Player::update\<close> subtracts 360 at most once per call, which keeps
  the range only for frames shorter than 4/7 of a second (the lemma above).  Here the
  player just reset (rotation 0) is updated with \<open>dt = 2\<close> and ends at 900 degrees.
\<close>

theorem player_update_rotation_escapes:
  "0 \<le> rotation (player_reset default_config new_player) \<and>
   rotation (player_reset default_config new_player) < 360 \<and> (0::real) \<le> 2 \<and>
   rotation (player_update 2 False default_config (player_reset default_config new_player)) = 900"
  by (simp add: player_update_def player_reset_def default_config_def new_player_def Let_def)

section \<open>Properties of the frame update\<close>

lemma update_playing:
  assumes "\<not> gameOver g" "\<not> levelComplete g"
  shows "gameOver (fst (update rv dt down (g, s))) \<longleftrightarrow>
           (landedOnGround (frame_landing rv dt down (g, s)) \<and> hasLeftGround (ball g)) \<or>
           checkCollision (world (fst (update rv dt down (g, s))))
             (player_x (ball (fst (update rv dt down (g, s)))))
             (player_y (ball (fst (update rv dt down (g, s)))))
             (radius (config g)) (config g)"
  using assms
  by (simp_all add: update_def Let_def case_prod_beta setGrounded_def hasJumpedOnce_def moved_ball_def
      player_update_def)

text \<open>
  Claim C8.  In a frame that runs (neither flag set before it) and in which
  \<^verbatim>\<open>resolveLanding\<close> reports \<open>landedOnGround = true\<close>: if the player has left the ground
  before, the frame ends with \<open>gameOver\<close> set; if not, the ground touch sets nothing and
  \<open>gameOver\<close> is set exactly when \<^verbatim>\<open>checkCollision\<close> returns true in that frame.
\<close>

theorem update_ground_touch:
  assumes "\<not> gameOver g" and "\<not> levelComplete g"
    and "landedOnGround (frame_landing rv dt spaceDown (g, s))"
  shows "(hasJumpedOnce (ball g) \<longrightarrow> gameOver (fst (update rv dt spaceDown (g, s)))) \<and>
         (\<not> hasJumpedOnce (ball g) \<longrightarrow>
            (gameOver (fst (update rv dt spaceDown (g, s))) \<longleftrightarrow>
             checkCollision (world (fst (update rv dt spaceDown (g, s))))
               (player_x (ball (fst (update rv dt spaceDown (g, s)))))
               (player_y (ball (fst (update rv dt spaceDown (g, s)))))
               (radius (config g)) (config g)))"
  using update_playing[OF assms(1,2), of rv dt spaceDown s] assms(3)
  by (auto simp: hasJumpedOnce_def)

lemma resting_scrolled:
  "scrolled lowest_draw (1/10) (resting_game, ()) =
     (\<lparr> totalPlatforms = 1,
        platforms = [\<lparr> plat_x = 1238, yTop = 335, width = 120, counted = False \<rparr>],
        clouds = [] \<rparr>, ())"
  by (simp add: scrolled_def scroll_def resting_game_def visited_def unvisited_def
      default_config_def)

lemma resting_landing:
  "frame_landing lowest_draw (1/10) False (resting_game, ()) =
     \<lparr> landed = True, landedOnGround = True, new_y = 370, new_vy = 0 \<rparr>"
  by (simp add: frame_landing_def resting_scrolled)
     (simp add: resolveLanding_def moved_ball_def player_update_def resting_game_def
      player_reset_def new_player_def default_config_def visited_def landing_scan_def
      landing_step_def crosses_top_def Let_def)

lemma resting_update:
  "fst (update lowest_draw (1/10) False (resting_game, ())) =
     resting_game \<lparr> ball := (ball resting_game) \<lparr> rotation := 63 \<rparr>,
                    world := fst (scrolled lowest_draw (1/10) (resting_game, ())) \<rparr>"
  apply (simp add: update_def resting_scrolled resting_landing Let_def)
  apply (simp add: resting_game_def moved_ball_def player_update_def 
      player_reset_def new_player_def default_config_def awardScore_def visited_def unvisited_def
      passed_def checkCollision_def hits_def setGrounded_def hasJumpedOnce_def Let_def)
  done

theorem update_ground_touch_witness:
  "\<not> gameOver resting_game \<and> \<not> levelComplete resting_game \<and>
   landedOnGround (frame_landing lowest_draw (1/10) False (resting_game, ())) \<and>
   \<not> hasJumpedOnce (ball resting_game) \<and>
   \<not> gameOver (fst (update lowest_draw (1/10) False (resting_game, ())))"
proof -
  have h1: "\<not> gameOver resting_game" and h2: "\<not> levelComplete resting_game"
    by (simp_all add: resting_game_def)
  have h3: "landedOnGround (frame_landing lowest_draw (1/10) False (resting_game, ()))"
    by (simp add: resting_landing)
  have j: "\<not> hasJumpedOnce (ball resting_game)"
    by (simp add: resting_game_def hasJumpedOnce_def player_reset_def)
  have c: "\<not> checkCollision (world (fst (update lowest_draw (1/10) False (resting_game, ()))))
               (player_x (ball (fst (update lowest_draw (1/10) False (resting_game, ())))))
               (player_y (ball (fst (update lowest_draw (1/10) False (resting_game, ())))))
               (radius (config resting_game)) (config resting_game)"
    unfolding resting_update resting_scrolled
    by (simp add: resting_game_def checkCollision_def visited_def hits_def player_reset_def
        default_config_def Let_def)
  from update_ground_touch [OF h1 h2 h3] h1 h2 h3 j c show ?thesis by blast
qed

section \<open>Properties of generation and scrolling\<close>

lemma to_int_castable:
  "castable f \<Longrightarrow> to_int f = (if f \<ge> 0 then \<lfloor>f\<rfloor> else \<lceil>f\<rceil>)"
  by (simp add: to_int_def)

lemma to_int_of_Ints: "castable f \<Longrightarrow> f \<in> \<int> \<Longrightarrow> of_int (to_int f) = f"
  by (auto simp: to_int_castable elim!: Ints_cases)

lemma to_int_nonneg:
  "castable f \<Longrightarrow> 0 \<le> f \<Longrightarrow> 0 \<le> to_int f \<and> of_int (to_int f) \<le> f"
  by (simp add: to_int_castable)

lemma draw3_bounds:
  assumes "rng_ok rv" and "draw3 rv cfg s = ((gap, w, step), s')"
  shows "min (to_int (minPlatformWidth cfg)) (to_int (maxPlatformWidth cfg)) \<le> w"
    and "w \<le> max (to_int (minPlatformWidth cfg)) (to_int (maxPlatformWidth cfg))"
    and "min (to_int (stepUpMin cfg)) (to_int (stepUpMax cfg)) \<le> step"
proof -
  obtain g s1 where 1: "rv (to_int (minGap cfg)) (to_int (maxGap cfg)) s = (g, s1)" by fastforce
  obtain w' s2 where 2: "rv (to_int (minPlatformWidth cfg)) (to_int (maxPlatformWidth cfg)) s1 = (w', s2)" by fastforce
  obtain st s3 where 3: "rv (to_int (stepUpMin cfg)) (to_int (stepUpMax cfg)) s2 = (st, s3)" by fastforce
  have eq: "w = w'" "step = st" using assms(2) by (simp_all add: draw3_def 1 2 3)
  have a: "min (to_int (minPlatformWidth cfg)) (to_int (maxPlatformWidth cfg)) \<le> fst (rv (to_int (minPlatformWidth cfg)) (to_int (maxPlatformWidth cfg)) s1)"
       "fst (rv (to_int (minPlatformWidth cfg)) (to_int (maxPlatformWidth cfg)) s1) \<le> max (to_int (minPlatformWidth cfg)) (to_int (maxPlatformWidth cfg))"
       "min (to_int (stepUpMin cfg)) (to_int (stepUpMax cfg)) \<le> fst (rv (to_int (stepUpMin cfg)) (to_int (stepUpMax cfg)) s2)"
    using assms(1) unfolding rng_ok_def by blast+
  show "min (to_int (minPlatformWidth cfg)) (to_int (maxPlatformWidth cfg)) \<le> w"
    and "w \<le> max (to_int (minPlatformWidth cfg)) (to_int (maxPlatformWidth cfg))"
    and "min (to_int (stepUpMin cfg)) (to_int (stepUpMax cfg)) \<le> step"
    using a by (simp_all add: eq 2 3)
qed

lemma drawn_platform_in_bounds:
  assumes ok: "rng_ok rv" and fit: "draws_fit cfg"
    and low: "minPlatformY cfg \<le> groundY cfg - 20"
    and d: "draw3 rv cfg s = ((gap, w, step), s')"
    and prev: "prevTop \<le> groundY cfg - 20"
  shows "in_bounds cfg \<lparr> plat_x = xx, yTop = max (minPlatformY cfg) (prevTop - of_int step),
                          width = of_int w, counted = c \<rparr>"
proof -
  let ?a = "to_int (minPlatformWidth cfg)" and ?b = "to_int (maxPlatformWidth cfg)"
  have lo: "minPlatformWidth cfg \<le> of_int (min ?a ?b)"
    using fit by (simp add: draws_fit_def min_def)
  have hi: "real_of_int (max ?a ?b) \<le> maxPlatformWidth cfg"
    using fit by (simp add: draws_fit_def max_def)
  have "real_of_int (min ?a ?b) \<le> of_int w" using draw3_bounds(1)[OF ok d] by simp
  with lo have a: "minPlatformWidth cfg \<le> of_int w" by (rule order_trans)
  have "real_of_int w \<le> of_int (max ?a ?b)" using draw3_bounds(2)[OF ok d] by simp
  from this hi have b: "of_int w \<le> maxPlatformWidth cfg" by (rule order_trans)
  have "0 \<le> min (to_int (stepUpMin cfg)) (to_int (stepUpMax cfg))"
    using fit by (simp add: draws_fit_def)
  then have "0 \<le> step" using draw3_bounds(3)[OF ok d] by linarith
  then have c: "prevTop - real_of_int step \<le> groundY cfg - 20" using prev by simp
  show ?thesis using a b c low by (simp add: in_bounds_def)
qed

lemma gen_platforms_in_bounds:
  assumes "rng_ok rv" "draws_fit cfg" "minPlatformY cfg \<le> groundY cfg - 20"
  shows "prevTop \<le> groundY cfg - 20 \<Longrightarrow>
         list_all (in_bounds cfg) (fst (gen_platforms rv cfg n cursor prevTop s))"
proof (induction n arbitrary: cursor prevTop s)
  case 0
  then show ?case by simp
next
  case (Suc n)
  obtain gap w step s' where d: "draw3 rv cfg s = ((gap, w, step), s')"
    by (metis prod_cases3 surj_pair)
  let ?t = "max (minPlatformY cfg) (prevTop - of_int step)"
  have b: "in_bounds cfg \<lparr> plat_x = cursor + of_int gap, yTop = ?t, width = of_int w, counted = False \<rparr>"
    using drawn_platform_in_bounds[OF assms d Suc.prems] .
  then have "?t \<le> groundY cfg - 20" by (simp add: in_bounds_def)
  from Suc.IH[OF this] b show ?case
    by (simp add: d case_prod_beta Let_def)
qed

lemma recycle_in_bounds:
  assumes "rng_ok rv" "draws_fit cfg" "minPlatformY cfg \<le> groundY cfg - 20"
  shows "list_all (in_bounds cfg) ps \<Longrightarrow> list_all (in_bounds cfg) (fst (recycle rv cfg ps rm s))"
proof (induction ps arbitrary: rm s)
  case Nil
  then show ?case by simp
next
  case (Cons p ps)
  obtain gap w step s' where d: "draw3 rv cfg s = ((gap, w, step), s')"
    by (metis prod_cases3 surj_pair)
  from Cons.prems have p: "in_bounds cfg p" and ps: "list_all (in_bounds cfg) ps" by simp_all
  have "yTop p \<le> groundY cfg - 20" using p by (simp add: in_bounds_def)
  from drawn_platform_in_bounds[OF assms d this] Cons.IH[OF ps] p show ?case
    by (simp add: d case_prod_beta Let_def)
qed

lemma shift_all_map: "fst (shift_all d ps rm) = map (\<lambda>p. p\<lparr>plat_x := plat_x p - d\<rparr>) ps"
  by (induction ps arbitrary: rm) (simp_all add: case_prod_beta Let_def)

lemma shift_in_bounds: "in_bounds cfg (p\<lparr>plat_x := v\<rparr>) = in_bounds cfg p"
  by (simp add: in_bounds_def)

lemma length_recycle: "length (fst (recycle rv cfg ps rm s)) = length ps"
  by (induction ps arbitrary: rm s) (simp_all add: case_prod_beta Let_def)

lemma platforms_scroll:
  "platforms (fst (scroll rv dt cfg L s)) =
     fst (recycle rv cfg (fst (shift_all (scrollSpeed cfg * dt) (visited L) 0))
            (snd (shift_all (scrollSpeed cfg * dt) (visited L) 0)) s) @ unvisited L"
  by (simp add: scroll_def case_prod_beta)

lemma visited_scroll:
  "visited (fst (scroll rv dt cfg L s)) =
     fst (recycle rv cfg (fst (shift_all (scrollSpeed cfg * dt) (visited L) 0))
            (snd (shift_all (scrollSpeed cfg * dt) (visited L) 0)) s)"
proof -
  have t: "totalPlatforms (fst (scroll rv dt cfg L s)) = totalPlatforms L"
    by (simp add: scroll_def case_prod_beta)
  have "length (fst (recycle rv cfg (fst (shift_all (scrollSpeed cfg * dt) (visited L) 0))
            (snd (shift_all (scrollSpeed cfg * dt) (visited L) 0)) s)) = length (visited L)"
    by (simp add: length_recycle shift_all_map)
  moreover have "length (visited L) \<le> totalPlatforms L \<and> (length (visited L) < totalPlatforms L \<longrightarrow> unvisited L = [])"
    by (simp add: visited_def unvisited_def)
  ultimately show ?thesis
    unfolding visited_def[of "fst (scroll rv dt cfg L s)"] t platforms_scroll
    by (auto simp: not_less)
qed

lemma shift_all_rightMost:
  "rm \<le> snd (shift_all d ps rm) \<and> (\<forall>p \<in> set ps. plat_x p - d \<le> snd (shift_all d ps rm))"
proof (induction ps arbitrary: rm)
  case Nil
  then show ?case by simp
next
  case (Cons p ps)
  let ?rm' = "if plat_x p - d > rm then plat_x p - d else rm"
  have s: "snd (shift_all d (p # ps) rm) = snd (shift_all d ps ?rm')"
    by (simp add: case_prod_beta Let_def)
  have a: "rm \<le> ?rm'" and b: "plat_x p - d \<le> ?rm'" by simp_all
  have c: "?rm' \<le> snd (shift_all d ps ?rm')"
    and e: "\<forall>q \<in> set ps. plat_x q - d \<le> snd (shift_all d ps ?rm')"
    using Cons.IH[of ?rm'] by blast+
  have "rm \<le> snd (shift_all d ps ?rm')" using a c by (rule order_trans)
  moreover have "plat_x p - d \<le> snd (shift_all d ps ?rm')" using b c by (rule order_trans)
  ultimately show ?case unfolding s using e by simp
qed

lemma draw3_gap:
  assumes "gap_in_range rv cfg" "0 < minGap cfg" "draw3 rv cfg s = ((gap, w, step), s')"
  shows "minGap cfg \<le> real_of_int gap" and "0 < real_of_int gap"
proof -
  have "gap = fst (rv (to_int (minGap cfg)) (to_int (maxGap cfg)) s)"
    using assms(3) by (simp add: draw3_def case_prod_beta)
  then show "minGap cfg \<le> of_int gap" using assms(1) by (simp add: gap_in_range_def)
  then show "0 < real_of_int gap" using assms(2) by simp
qed

lemma recycle_nth:
  assumes g: "gap_in_range rv cfg" "0 < minGap cfg"
  shows "i < length ps \<Longrightarrow>
     (if plat_x (ps ! i) + width (ps ! i) < - 60
      then rightMost_seen rv cfg ps rm s ! i + minGap cfg \<le> plat_x (fst (recycle rv cfg ps rm s) ! i) \<and>
           \<not> counted (fst (recycle rv cfg ps rm s) ! i)
      else fst (recycle rv cfg ps rm s) ! i = ps ! i) \<and>
     rm \<le> rightMost_seen rv cfg ps rm s ! i"
proof (induction ps arbitrary: rm s i)
  case Nil
  then show ?case by simp
next
  case (Cons p ps)
  obtain gap w step s' where d: "draw3 rv cfg s = ((gap, w, step), s')"
    by (metis prod_cases3 surj_pair)
  have pos: "minGap cfg \<le> real_of_int gap" "0 < real_of_int gap" using draw3_gap[OF g d] .
  show ?case
  proof (cases i)
    case 0
    then show ?thesis using pos by (simp add: d case_prod_beta Let_def)
  next
    case (Suc k)
    then have k: "k < length ps" using Cons.prems by simp
    show ?thesis
    proof (cases "plat_x p + width p < - 60")
      case True
      from Cons.IH[OF k, of "rm + of_int gap" s'] pos show ?thesis
        using True Suc by (simp add: d case_prod_beta Let_def)
    next
      case False
      from Cons.IH[OF k, of rm s] show ?thesis
        using False Suc by (simp add: case_prod_beta Let_def)
    qed
  qed
qed

lemma rng_ok_lowest_draw: "rng_ok lowest_draw"
  by (simp add: rng_ok_def lowest_draw_def min_def max_def)

lemma to_int_numeral [simp]:
  assumes "numeral n \<le> (2147483647 :: int)"
  shows "to_int (numeral n) = numeral n"
proof -
  have "real_of_int (numeral n) \<le> real_of_int 2147483647"
    using assms by (simp only: of_int_le_iff)
  then have "(numeral n :: real) \<le> 2147483647" by (simp only: of_int_numeral)
  moreover have "(0 :: real) < numeral n" by (rule zero_less_numeral)
  ultimately have "castable (numeral n)" unfolding castable_def by linarith
  then show ?thesis by (simp add: to_int_castable)
qed

lemma to_int_neg_numeral [simp]:
  assumes "numeral n \<le> (2147483648 :: int)"
  shows "to_int (- numeral n) = - numeral n"
proof -
  have "real_of_int (numeral n) \<le> real_of_int 2147483648"
    using assms by (simp only: of_int_le_iff)
  then have "(numeral n :: real) \<le> 2147483648" by (simp only: of_int_numeral)
  moreover have "(0 :: real) < numeral n" by (rule zero_less_numeral)
  ultimately have "castable (- numeral n)" unfolding castable_def by linarith
  then show ?thesis by (simp add: to_int_castable)
qed

lemma draws_fit_default: "draws_fit default_config"
  by (simp add: draws_fit_def castable_def default_config_def)

lemma draws_fit_plain:
  assumes step: "0 \<le> stepUpMin cfg" "stepUpMin cfg < 2147483648"
      "0 \<le> stepUpMax cfg" "stepUpMax cfg < 2147483648"
    and wide: "minPlatformWidth cfg \<in> \<int>" "0 \<le> minPlatformWidth cfg"
      "minPlatformWidth cfg \<le> maxPlatformWidth cfg" "maxPlatformWidth cfg < 2147483648"
  shows "draws_fit cfg"
proof -
  have c: "castable (stepUpMin cfg)" "castable (stepUpMax cfg)"
      "castable (minPlatformWidth cfg)" "castable (maxPlatformWidth cfg)"
    using assms by (simp_all add: castable_def)
  have a: "real_of_int (to_int (minPlatformWidth cfg)) = minPlatformWidth cfg"
    using c(3) wide(1) by (rule to_int_of_Ints)
  have b: "to_int (maxPlatformWidth cfg) = \<lfloor>maxPlatformWidth cfg\<rfloor>"
    using c(4) wide(2,3) by (simp add: to_int_castable)
  have "to_int (minPlatformWidth cfg) \<le> \<lfloor>maxPlatformWidth cfg\<rfloor>"
    using wide(3) a by (simp add: le_floor_iff)
  then have "real_of_int (to_int (minPlatformWidth cfg)) \<le> real_of_int \<lfloor>maxPlatformWidth cfg\<rfloor>"
    by (simp only: of_int_le_iff)
  then have m: "minPlatformWidth cfg \<le> real_of_int \<lfloor>maxPlatformWidth cfg\<rfloor>"
    by (simp only: a)
  have s: "0 \<le> to_int (stepUpMin cfg)" "0 \<le> to_int (stepUpMax cfg)"
    using to_int_nonneg[OF c(1) step(1)] to_int_nonneg[OF c(2) step(3)] by simp_all
  show ?thesis
    unfolding draws_fit_def using c s m wide(3) by (simp add: a b)
qed

lemma gap_in_range_lowest_draw: "gap_in_range lowest_draw default_config"
  by (simp add: gap_in_range_def lowest_draw_def default_config_def)

lemma visited_leaving_level: "visited leaving_level = platforms leaving_level"
  by (simp add: visited_def leaving_level_def)

text \<open>
  Why the bounds must be within the range of \<^verbatim>\<open>int\<close>: with \<open>maxPlatformWidth\<close> at
  3000000000 the cast gives the least \<^verbatim>\<open>int\<close>, the width is drawn between it and 120, and
  the lowest draw is a width far below \<open>minPlatformWidth\<close>.
\<close>

lemma overwide_out_of_bounds:
  "\<not> castable (maxPlatformWidth overwide) \<and>
   to_int (maxPlatformWidth overwide) = - 2147483648 \<and>
   \<not> draws_fit overwide \<and>
   width (platforms (fst (generate lowest_draw overwide empty_level ())) ! 0) = - 2147483648 \<and>
   \<not> all_in_bounds overwide (platforms (fst (generate lowest_draw overwide empty_level ())))"
proof -
  have c: "\<not> castable (maxPlatformWidth overwide)"
    by (simp add: castable_def overwide_def default_config_def)
  then have t: "to_int (maxPlatformWidth overwide) = - 2147483648" by (simp add: to_int_def)
  have m: "to_int 3000000000 = - 2147483648" using t by (simp add: overwide_def)
  have g: "platforms (fst (generate lowest_draw overwide empty_level ())) =
     [\<lparr> plat_x = 1260, yTop = 335, width = - 2147483648, counted = False \<rparr>,
      \<lparr> plat_x = 1520, yTop = 320, width = - 2147483648, counted = False \<rparr>]"
    by (simp add: generate_def empty_level_def numeral_2_eq_2 draw3_def lowest_draw_def
        overwide_def default_config_def Let_def case_prod_beta m)
  show ?thesis unfolding g using c t
    by (simp add: draws_fit_def all_in_bounds_def in_bounds_def overwide_def default_config_def)
qed

text \<open>
  Claim C5, as amended.  Assume that every random draw lies within the range requested
  for it, that \<open>minPlatformY \<le> groundY - 20\<close>, that \<open>stepUpMin\<close>, \<open>stepUpMax\<close>,
  \<open>minPlatformWidth\<close> and \<open>maxPlatformWidth\<close> are within the range of a 32-bit \<^verbatim>\<open>int\<close>, that
  the step bounds requested, \<^verbatim>\<open>(int)stepUpMin\<close> and \<^verbatim>\<open>(int)stepUpMax\<close>, are not negative,
  and that the width bounds requested, \<^verbatim>\<open>(int)minPlatformWidth\<close> and
  \<^verbatim>\<open>(int)maxPlatformWidth\<close>, both lie between \<open>minPlatformWidth\<close> and \<open>maxPlatformWidth\<close>.
  Then every platform produced by \<^verbatim>\<open>generate\<close> has \<open>minPlatformY \<le> yTop \<le> groundY - 20\<close>
  and \<open>minPlatformWidth \<le> width \<le> maxPlatformWidth\<close>, and every call of \<^verbatim>\<open>scroll\<close>,
  recycling included, keeps these bounds for every platform.  By the lemma
  \<open>draws_fit_plain\<close> the added assumptions hold when the step bounds are in
  \<open>[0, 2147483648)\<close> and \<open>minPlatformWidth\<close> is a whole number with
  \<open>0 \<le> minPlatformWidth \<le> maxPlatformWidth < 2147483648\<close>.
\<close>

theorem platform_bounds_invariant:
  assumes "rng_ok rv" and "draws_fit cfg" and "minPlatformY cfg \<le> groundY cfg - 20"
  shows "all_in_bounds cfg (platforms (fst (generate rv cfg L s))) \<and>
         (all_in_bounds cfg (platforms L') \<longrightarrow>
            all_in_bounds cfg (platforms (fst (scroll rv dt cfg L' s'))))"
proof
  show "all_in_bounds cfg (platforms (fst (generate rv cfg L s)))"
    using gen_platforms_in_bounds[OF assms, of "groundY cfg - 20"]
    by (simp add: generate_def case_prod_beta all_in_bounds_def Let_def)
next
  show "all_in_bounds cfg (platforms L') \<longrightarrow>
            all_in_bounds cfg (platforms (fst (scroll rv dt cfg L' s')))"
  proof
    assume a: "all_in_bounds cfg (platforms L')"
    then have v: "list_all (in_bounds cfg) (visited L')" and u: "list_all (in_bounds cfg) (unvisited L')"
      unfolding all_in_bounds_def visited_def unvisited_def list_all_iff
      by (auto dest: in_set_takeD in_set_dropD)
    have "list_all (in_bounds cfg) (fst (shift_all (scrollSpeed cfg * dt) (visited L') 0))"
      using v by (simp add: shift_all_map list_all_iff shift_in_bounds)
    from recycle_in_bounds[OF assms this] u
    show "all_in_bounds cfg (platforms (fst (scroll rv dt cfg L' s')))"
      by (simp add: platforms_scroll all_in_bounds_def)
  qed
qed

theorem platform_bounds_invariant_witness:
  "rng_ok lowest_draw \<and> draws_fit default_config \<and>
   minPlatformY default_config \<le> groundY default_config - 20 \<and>
   all_in_bounds default_config (platforms (fst (generate lowest_draw default_config empty_level ()))) \<and>
   all_in_bounds default_config (platforms leaving_level) \<and>
   all_in_bounds default_config (platforms (fst (scroll lowest_draw 1 default_config leaving_level ())))"
proof -
  have h3: "minPlatformY default_config \<le> groundY default_config - 20"
    by (simp add: default_config_def)
  have h4: "all_in_bounds default_config (platforms leaving_level)"
    by (simp add: all_in_bounds_def in_bounds_def leaving_level_def default_config_def)
  from platform_bounds_invariant [OF rng_ok_lowest_draw draws_fit_default h3,
      of empty_level "()" leaving_level 1 "()"]
    rng_ok_lowest_draw draws_fit_default h3 h4
  show ?thesis by blast
qed

text \<open>
  With only the two assumptions of the claim as written the bound on \<open>yTop\<close> fails: a
  configuration whose \<open>stepUpMin\<close> is negative lets a platform step down, below
  \<open>groundY - 20\<close>.
\<close>

theorem platform_bounds_invariant_counterexample:
  "rng_ok lowest_draw \<and> minPlatformY stepping_down \<le> groundY stepping_down - 20 \<and>
   yTop (platforms (fst (generate lowest_draw stepping_down empty_level ())) ! 0) = 360 \<and>
   \<not> all_in_bounds stepping_down (platforms (fst (generate lowest_draw stepping_down empty_level ())))"
proof -
  have g: "platforms (fst (generate lowest_draw stepping_down empty_level ())) =
     [\<lparr> plat_x = 1260, yTop = 360, width = 120, counted = False \<rparr>,
      \<lparr> plat_x = 1520, yTop = 370, width = 120, counted = False \<rparr>]"
    by (simp add: generate_def empty_level_def numeral_2_eq_2 draw3_def lowest_draw_def
        stepping_down_def default_config_def Let_def case_prod_beta)
  show ?thesis unfolding g
    by (simp add: rng_ok_lowest_draw all_in_bounds_def in_bounds_def stepping_down_def
        default_config_def)
qed

text \<open>
  Claim C6.  Assume that every gap drawn lies in \<open>[minGap, maxGap]\<close> and that
  \<open>minGap > 0\<close>.  One call of \<^verbatim>\<open>scroll\<close> leaves a visited platform whose right edge is
  not left of \<open>-60\<close> after the shift as it was, except that its \<open>x\<close> is smaller by exactly
  \<open>scrollSpeed * dt\<close>; a platform whose right edge is left of \<open>-60\<close> after the shift
  gets an \<open>x\<close> strictly greater than the value \<^verbatim>\<open>rightMost\<close> has when the loop reaches
  it, and \<open>counted = false\<close>.  That value of \<^verbatim>\<open>rightMost\<close> is at least 0 and at least
  the shifted \<open>x\<close> of every platform.
\<close>

theorem scroll_shift_and_recycle:
  assumes "gap_in_range rv cfg" and "0 < minGap cfg" and "i < length (visited L)"
  shows "(if plat_x (visited L ! i) - scrollSpeed cfg * dt + width (visited L ! i) < - 60
          then rightMost_before rv dt cfg L s i < plat_x (visited (fst (scroll rv dt cfg L s)) ! i) \<and>
               \<not> counted (visited (fst (scroll rv dt cfg L s)) ! i)
          else visited (fst (scroll rv dt cfg L s)) ! i =
               (visited L ! i) \<lparr> plat_x := plat_x (visited L ! i) - scrollSpeed cfg * dt \<rparr>) \<and>
         0 \<le> rightMost_before rv dt cfg L s i \<and>
         (\<forall>q \<in> set (visited L). plat_x q - scrollSpeed cfg * dt \<le> rightMost_before rv dt cfg L s i)"
proof -
  let ?d = "scrollSpeed cfg * dt"
  let ?ps = "fst (shift_all ?d (visited L) 0)"
  let ?rm = "snd (shift_all ?d (visited L) 0)"
  have i: "i < length ?ps" using assms(3) by (simp add: shift_all_map)
  have n: "?ps ! i = (visited L ! i) \<lparr> plat_x := plat_x (visited L ! i) - ?d \<rparr>"
    using assms(3) by (simp add: shift_all_map)
  have b: "rightMost_before rv dt cfg L s i = rightMost_seen rv cfg ?ps ?rm s ! i"
    by (simp add: rightMost_before_def case_prod_beta)
  have r: "0 \<le> ?rm" "\<forall>q \<in> set (visited L). plat_x q - ?d \<le> ?rm"
    using shift_all_rightMost[of 0 ?d "visited L"] by blast+
  have le: "?rm \<le> rightMost_seen rv cfg ?ps ?rm s ! i"
    using recycle_nth[OF assms(1,2) i, of ?rm s] by blast
  have main: "if plat_x (?ps ! i) + width (?ps ! i) < - 60
      then rightMost_seen rv cfg ?ps ?rm s ! i < plat_x (fst (recycle rv cfg ?ps ?rm s) ! i) \<and>
           \<not> counted (fst (recycle rv cfg ?ps ?rm s) ! i)
      else fst (recycle rv cfg ?ps ?rm s) ! i = ?ps ! i"
  proof (cases "plat_x (?ps ! i) + width (?ps ! i) < - 60")
    case True
    then have "rightMost_seen rv cfg ?ps ?rm s ! i + minGap cfg
                 \<le> plat_x (fst (recycle rv cfg ?ps ?rm s) ! i)"
      and "\<not> counted (fst (recycle rv cfg ?ps ?rm s) ! i)"
      using recycle_nth[OF assms(1,2) i, of ?rm s] by simp_all
    then show ?thesis using True assms(2) by simp
  next
    case False
    then show ?thesis using recycle_nth[OF assms(1,2) i, of ?rm s] by simp
  qed
  have 1: "0 \<le> rightMost_before rv dt cfg L s i" using r(1) le b by simp
  have 2: "\<forall>q \<in> set (visited L). plat_x q - ?d \<le> rightMost_before rv dt cfg L s i"
    using r(2) le b by fastforce
  have 3: "if plat_x (visited L ! i) - ?d + width (visited L ! i) < - 60
          then rightMost_before rv dt cfg L s i < plat_x (visited (fst (scroll rv dt cfg L s)) ! i) \<and>
               \<not> counted (visited (fst (scroll rv dt cfg L s)) ! i)
          else visited (fst (scroll rv dt cfg L s)) ! i =
               (visited L ! i) \<lparr> plat_x := plat_x (visited L ! i) - ?d \<rparr>"
    using main unfolding visited_scroll b n by simp
  show ?thesis using 1 2 3 by blast
qed

lemma visited_scroll_leaving_level:
  "visited (fst (scroll lowest_draw 1 default_config leaving_level ())) =
     [\<lparr> plat_x = 340, yTop = 320, width = 120, counted = False \<rparr>,
      \<lparr> plat_x = 80, yTop = 320, width = 150, counted = False \<rparr>]"
  unfolding visited_scroll
  by (simp add: leaving_level_def visited_def draw3_def
      lowest_draw_def default_config_def Let_def case_prod_beta)

lemma rightMost_before_leaving_level:
  "rightMost_before lowest_draw 1 default_config leaving_level () 0 = 80"
  by (simp add: rightMost_before_def leaving_level_def visited_def 
      default_config_def Let_def case_prod_beta)

theorem scroll_shift_and_recycle_witness:
  "gap_in_range lowest_draw default_config \<and> 0 < minGap default_config \<and>
   0 < length (visited leaving_level) \<and> 1 < length (visited leaving_level) \<and>
   plat_x (visited leaving_level ! 0) - scrollSpeed default_config * 1
     + width (visited leaving_level ! 0) < - 60 \<and>
   rightMost_before lowest_draw 1 default_config leaving_level () 0 = 80 \<and>
   visited (fst (scroll lowest_draw 1 default_config leaving_level ())) ! 0 =
     \<lparr> plat_x = 340, yTop = 320, width = 120, counted = False \<rparr> \<and>
   \<not> (plat_x (visited leaving_level ! 1) - scrollSpeed default_config * 1
     + width (visited leaving_level ! 1) < - 60) \<and>
   visited (fst (scroll lowest_draw 1 default_config leaving_level ())) ! 1 =
     (visited leaving_level ! 1) \<lparr> plat_x := 80 \<rparr>"
proof -
  have h2: "0 < minGap default_config" by (simp add: default_config_def)
  have h3: "0 < length (visited leaving_level)" and h4: "1 < length (visited leaving_level)"
    unfolding visited_leaving_level by (simp_all add: leaving_level_def)
  have c0: "plat_x (visited leaving_level ! 0) - scrollSpeed default_config * 1
     + width (visited leaving_level ! 0) < - 60"
    and c1: "\<not> (plat_x (visited leaving_level ! 1) - scrollSpeed default_config * 1
     + width (visited leaving_level ! 1) < - 60)"
    and x1: "plat_x (visited leaving_level ! 1) - scrollSpeed default_config * 1 = 80"
    unfolding visited_leaving_level by (simp_all add: leaving_level_def default_config_def)
  from scroll_shift_and_recycle [OF gap_in_range_lowest_draw h2 h3, of 1 "()"]
       scroll_shift_and_recycle [OF gap_in_range_lowest_draw h2 h4, of 1 "()"]
       gap_in_range_lowest_draw h2 h3 h4 c0 c1 x1
  show ?thesis
    by (simp add: rightMost_before_leaving_level visited_scroll_leaving_level)
qed

section \<open>The two terminal flags\<close>

lemma update_running:
  assumes "\<not> gameOver g" "\<not> levelComplete g"
  shows "config (fst (update rv dt d (g, s))) = config g"
    and "ball (fst (update rv dt d (g, s))) =
           setGrounded (landed (frame_landing rv dt d (g, s)))
             ((moved_ball dt d g)\<lparr>player_y := new_y (frame_landing rv dt d (g, s)),
                                   vy := new_vy (frame_landing rv dt d (g, s))\<rparr>)"
    and "world (fst (update rv dt d (g, s))) =
           snd (awardScore (fst (scrolled rv dt (g, s))) (player_x (ball g)) (radius (config g)))"
    and "score (fst (update rv dt d (g, s))) =
           score g + fst (awardScore (fst (scrolled rv dt (g, s))) (player_x (ball g)) (radius (config g)))"
    and "gameOver (fst (update rv dt d (g, s))) \<longleftrightarrow>
           (landedOnGround (frame_landing rv dt d (g, s)) \<and> hasLeftGround (ball g)) \<or>
           checkCollision (world (fst (update rv dt d (g, s)))) (player_x (ball g))
             (new_y (frame_landing rv dt d (g, s))) (radius (config g)) (config g)"
    and "levelComplete (fst (update rv dt d (g, s))) \<longleftrightarrow>
           int (cfgTotalPlatforms (config g)) \<le> score (fst (update rv dt d (g, s)))"
  using assms
  by (simp_all add: update_def Let_def case_prod_beta setGrounded_def hasJumpedOnce_def
      moved_ball_def player_update_def)

text \<open>
  Claim C4, as amended.  After \<^verbatim>\<open>reset\<close> both flags are false.  \<^verbatim>\<open>Game::update\<close> changes
  nothing once either flag is set, so a flag set in one frame is never joined by the
  other in a later frame.  The flags are not exclusive within a frame: an update that
  starts with both flags clear ends with both set exactly when that frame detects a
  death (a ground touch after a jump, or a collision) and also brings the score to
  \<open>totalPlatforms\<close>.
\<close>

theorem flags_terminal:
  "(\<not> gameOver (fst (reset rv gs)) \<and> \<not> levelComplete (fst (reset rv gs))) \<and>
   (gameOver g \<or> levelComplete g \<longrightarrow> update rv dt d (g, s) = (g, s)) \<and>
   (\<not> gameOver g \<and> \<not> levelComplete g \<longrightarrow>
      (gameOver (fst (update rv dt d (g, s))) \<and> levelComplete (fst (update rv dt d (g, s))) \<longleftrightarrow>
         ((landedOnGround (frame_landing rv dt d (g, s)) \<and> hasJumpedOnce (ball g)) \<or>
          checkCollision (world (fst (update rv dt d (g, s)))) (player_x (ball g))
            (new_y (frame_landing rv dt d (g, s))) (radius (config g)) (config g)) \<and>
         int (cfgTotalPlatforms (config g)) \<le> score (fst (update rv dt d (g, s)))))"
proof (intro conjI impI)
  show "\<not> gameOver (fst (reset rv gs))" "\<not> levelComplete (fst (reset rv gs))"
    by (simp_all add: reset_def case_prod_beta Let_def)
next
  assume "gameOver g \<or> levelComplete g"
  then show "update rv dt d (g, s) = (g, s)" by (simp add: update_def)
next
  assume a: "\<not> gameOver g \<and> \<not> levelComplete g"
  then have r: "\<not> gameOver g" "\<not> levelComplete g" by simp_all
  show "gameOver (fst (update rv dt d (g, s))) \<and> levelComplete (fst (update rv dt d (g, s))) \<longleftrightarrow>
         ((landedOnGround (frame_landing rv dt d (g, s)) \<and> hasJumpedOnce (ball g)) \<or>
          checkCollision (world (fst (update rv dt d (g, s)))) (player_x (ball g))
            (new_y (frame_landing rv dt d (g, s))) (radius (config g)) (config g)) \<and>
         int (cfgTotalPlatforms (config g)) \<le> score (fst (update rv dt d (g, s)))"
    unfolding update_running(5)[OF r] update_running(6)[OF r] hasJumpedOnce_def by simp
qed

theorem flags_terminal_witness:
  "\<not> gameOver (fst (reset lowest_draw (resting_game, ()))) \<and>
   \<not> levelComplete (fst (reset lowest_draw (resting_game, ()))) \<and>
   gameOver (resting_game\<lparr>gameOver := True\<rparr>) \<and>
   update lowest_draw (1 / 10) False (resting_game\<lparr>gameOver := True\<rparr>, ()) =
     (resting_game\<lparr>gameOver := True\<rparr>, ()) \<and>
   \<not> gameOver resting_game \<and> \<not> levelComplete resting_game \<and>
   \<not> hasJumpedOnce (ball resting_game) \<and>
   \<not> (gameOver (fst (update lowest_draw (1 / 10) False (resting_game, ()))) \<and>
      levelComplete (fst (update lowest_draw (1 / 10) False (resting_game, ()))))"
proof -
  have h1: "gameOver (resting_game\<lparr>gameOver := True\<rparr>)" by simp
  have h2: "\<not> gameOver resting_game" "\<not> levelComplete resting_game"
    by (simp_all add: resting_game_def)
  have j: "\<not> hasJumpedOnce (ball resting_game)"
    by (simp add: resting_game_def hasJumpedOnce_def player_reset_def)
  have sc: "\<not> int (cfgTotalPlatforms (config resting_game))
              \<le> score (fst (update lowest_draw (1 / 10) False (resting_game, ())))"
    unfolding update_running(4)[OF h2] resting_scrolled
    by (simp add: resting_game_def awardScore_def visited_def passed_def player_reset_def
        default_config_def)
  from flags_terminal [of lowest_draw "(resting_game, ())" "resting_game\<lparr>gameOver := True\<rparr>"
      "1 / 10" False "()"]
    flags_terminal [of lowest_draw "(resting_game, ())" resting_game "1 / 10" False "()"]
    h1 h2 j sc
  show ?thesis by blast
qed

subsection \<open>A run that ends both won and lost\<close>

lemma offscreen_iff: "(1380 + 260 * real i - 260 * real k < - 60) = (i + 6 \<le> k)"
proof -
  have "(1380 + 260 * real i - 260 * real k < - 60) = (real (1440 + 260 * i) < real (260 * k))"
    by (simp add: algebra_simps)
  also have "\<dots> = (1440 + 260 * i < 260 * k)" by (simp only: of_nat_less_iff)
  also have "\<dots> = (i + 6 \<le> k)" by linarith
  finally show ?thesis .
qed

lemma behind_iff: "(1380 + 260 * real i - 260 * real k < 180) = (i + 5 \<le> k)"
proof -
  have "(1380 + 260 * real i - 260 * real k < 180) = (real (1200 + 260 * i) < real (260 * k))"
    by (simp add: algebra_simps)
  also have "\<dots> = (1200 + 260 * i < 260 * k)" by (simp only: of_nat_less_iff)
  also have "\<dots> = (i + 5 \<le> k)" by linarith
  finally show ?thesis .
qed

lemma far_right: "k \<le> 204 \<Longrightarrow> 220 \<le> 53260 - 260 * real k"
proof -
  assume "k \<le> 204"
  then have "real k \<le> 204" by simp
  then show ?thesis by simp
qed

lemma draw3_lowest_default: "draw3 lowest_draw default_config s = ((260, 120, 15), s)"
  by (simp add: draw3_def lowest_draw_def default_config_def)

lemma gen_platforms_lowest:
  "gen_platforms lowest_draw default_config n cursor prevTop s =
     (map (\<lambda>i. \<lparr> plat_x = cursor + 260 * (real i + 1),
                   yTop = max 20 (prevTop - 15 * (real i + 1)),
                   width = 120, counted = False \<rparr>) [0..<n], s)"
proof (induction n arbitrary: cursor prevTop)
  case 0
  then show ?case by simp
next
  case (Suc n)
  let ?t = "max 20 (prevTop - 15)"
  let ?f = "\<lambda>i. \<lparr> plat_x = cursor + 260 * (real i + 1),
                   yTop = max 20 (prevTop - 15 * (real i + 1)),
                   width = 120, counted = False \<rparr>"
  let ?g = "\<lambda>i. \<lparr> plat_x = cursor + 260 + 260 * (real i + 1),
                   yTop = max 20 (?t - 15 * (real i + 1)),
                   width = 120, counted = False \<rparr>"
  have m: "minPlatformY default_config = 20" by (simp add: default_config_def)
  have step: "gen_platforms lowest_draw default_config (Suc n) cursor prevTop s =
      (?f 0 # fst (gen_platforms lowest_draw default_config n (cursor + 260) ?t s),
       snd (gen_platforms lowest_draw default_config n (cursor + 260) ?t s))"
    by (simp add: draw3_lowest_default m case_prod_beta Let_def)
  have pt: "?g i = ?f (Suc i)" for i
  proof -
    have "0 \<le> real i" by simp
    then have "max 20 (?t - 15 * (real i + 1)) = max 20 (prevTop - 15 * (real (Suc i) + 1))"
      by (simp add: max_def)
    then show ?thesis by (simp add: algebra_simps)
  qed
  have "map ?f [0..<Suc n] = ?f 0 # map ?f (map Suc [0..<n])"
    by (simp only: upt_conv_Cons[of 0 "Suc n"] map_Suc_upt list.map zero_less_Suc)
  also have "map ?f (map Suc [0..<n]) = map ?g [0..<n]"
    by (simp only: map_map o_def pt)
  finally show ?case unfolding step Suc.IH by simp
qed

lemma slot_in_bounds: "slot kpos kflag i p \<Longrightarrow> in_bounds default_config p"
proof -
  assume a: "slot kpos kflag i p"
  have "0 \<le> real i" by simp
  then show ?thesis using a
    by (auto simp: slot_def in_bounds_def default_config_def split: if_splits)
qed

lemma slots_in_bounds: "slots kpos kflag ps \<Longrightarrow> list_all (in_bounds default_config) ps"
  unfolding slots_def list_all_length using slot_in_bounds by auto

lemma slots_scroll:
  assumes ps: "slots k k ps" and k: "k \<le> 203"
  shows "slots (Suc k) k
           (fst (recycle lowest_draw default_config (fst (shift_all 260 ps 0))
                   (snd (shift_all 260 ps 0)) ()))"
proof -
  let ?ps1 = "fst (shift_all 260 ps 0)"
  let ?M = "snd (shift_all 260 ps 0)"
  let ?ps2 = "fst (recycle lowest_draw default_config ?ps1 ?M ())"
  have len: "length ps = 200" using ps by (simp add: slots_def)
  have len1: "length ?ps1 = 200" using len by (simp add: shift_all_map)
  have g: "gap_in_range lowest_draw default_config" by (rule gap_in_range_lowest_draw)
  have mg: "0 < minGap default_config" "minGap default_config = 260"
    by (simp_all add: default_config_def)
  have ok: "rng_ok lowest_draw" by (rule rng_ok_lowest_draw)
  have low: "minPlatformY default_config \<le> groundY default_config - 20"
    by (simp add: default_config_def)
  have b1: "list_all (in_bounds default_config) ?ps1"
    using slots_in_bounds[OF ps] by (simp add: shift_all_map list_all_iff shift_in_bounds)
  have b2: "list_all (in_bounds default_config) ?ps2"
    using recycle_in_bounds[OF ok draws_fit_default low b1] .
  have last: "slot k k 199 (ps ! 199)" using ps by (simp add: slots_def)
  have "k < 199 + 6" using k by simp
  then have x199: "plat_x (ps ! 199) = 1260 + 260 * 199 - 260 * real k"
    using last by (simp add: slot_def)
  have "ps ! 199 \<in> set ps" using len by simp
  then have M: "53000 - 260 * real k - 260 \<le> ?M"
    using shift_all_rightMost[of 0 260 ps] x199 by fastforce
  have "slot (Suc k) k i (?ps2 ! i)" if i: "i < 200" for i
  proof -
    have i1: "i < length ?ps1" using i len1 by simp
    have s: "slot k k i (ps ! i)" using ps i by (simp add: slots_def)
    have n1: "?ps1 ! i = (ps ! i)\<lparr>plat_x := plat_x (ps ! i) - 260\<rparr>"
      using i len by (simp add: shift_all_map)
    note r = recycle_nth[OF g mg(1) i1, of ?M "()"]
    show ?thesis
    proof (cases "k < i + 6")
      case live: True
      then have p: "ps ! i = \<lparr> plat_x = 1260 + 260 * real i - 260 * real k,
                 yTop = max 20 (335 - 15 * real i), width = 120, counted = (i + 5 \<le> k) \<rparr>"
        using s by (simp add: slot_def)
      have off: "(plat_x (?ps1 ! i) + width (?ps1 ! i) < - 60) = (i + 6 \<le> Suc k)"
        using offscreen_iff[of i "Suc k"] by (simp add: n1 p algebra_simps)
      show ?thesis
      proof (cases "i + 6 \<le> Suc k")
        case True
        then have "rightMost_seen lowest_draw default_config ?ps1 ?M () ! i + 260 \<le> plat_x (?ps2 ! i)"
          and c: "\<not> counted (?ps2 ! i)"
          and "?M \<le> rightMost_seen lowest_draw default_config ?ps1 ?M () ! i"
          using r off mg(2) by simp_all
        then have "53260 - 260 * real (Suc k) \<le> plat_x (?ps2 ! i)" using M by simp
        moreover have "in_bounds default_config (?ps2 ! i)"
          using b2 i len1 by (simp add: list_all_length length_recycle)
        ultimately show ?thesis using True c by (simp add: slot_def)
      next
        case False
        then have "?ps2 ! i = ?ps1 ! i" using r off by simp
        then show ?thesis using False live by (simp add: slot_def n1 p algebra_simps)
      qed
    next
      case False
      then have p: "in_bounds default_config (ps ! i)" "\<not> counted (ps ! i)"
         "53260 - 260 * real k \<le> plat_x (ps ! i)"
        using s by (simp_all add: slot_def)
      have "220 \<le> 53260 - 260 * real (Suc k)" using k by (intro far_right) simp
      then have x: "220 \<le> plat_x (?ps1 ! i)" "53260 - 260 * real (Suc k) \<le> plat_x (?ps1 ! i)"
        using p(3) by (simp_all add: n1)
      have "120 \<le> width (?ps1 ! i)" using p(1) by (simp add: n1 in_bounds_def default_config_def)
      then have "\<not> (plat_x (?ps1 ! i) + width (?ps1 ! i) < - 60)" using x(1) by simp
      then have "?ps2 ! i = ?ps1 ! i" using r by simp
      moreover have "in_bounds default_config (?ps1 ! i)" "\<not> counted (?ps1 ! i)"
        using p by (simp_all add: n1 shift_in_bounds)
      ultimately show ?thesis using False x(2) by (simp add: slot_def)
    qed
  qed
  then show ?thesis using len1 by (simp add: slots_def length_recycle)
qed

lemma slots_passed:
  assumes ps: "slots (Suc k) k ps" and k: "k \<le> 203" and i: "i < 200"
  shows "passed 200 20 (ps ! i) \<longleftrightarrow> i + 4 = k"
proof -
  have s: "slot (Suc k) k i (ps ! i)" using ps i by (simp add: slots_def)
  show ?thesis
  proof (cases "Suc k < i + 6")
    case True
    then have p: "ps ! i = \<lparr> plat_x = 1260 + 260 * real i - 260 * real (Suc k),
                 yTop = max 20 (335 - 15 * real i), width = 120, counted = (i + 5 \<le> k) \<rparr>"
      using s by (simp add: slot_def)
    have "passed 200 20 (ps ! i) \<longleftrightarrow> \<not> i + 5 \<le> k \<and> i + 5 \<le> Suc k"
      using behind_iff[of i "Suc k"] by (simp add: passed_def p algebra_simps)
    then show ?thesis by auto
  next
    case False
    then have p: "in_bounds default_config (ps ! i)" "53260 - 260 * real (Suc k) \<le> plat_x (ps ! i)"
      using s by (simp_all add: slot_def)
    have "220 \<le> 53260 - 260 * real (Suc k)" using k by (intro far_right) simp
    moreover have "120 \<le> width (ps ! i)" using p(1) by (simp add: in_bounds_def default_config_def)
    ultimately have "\<not> passed 200 20 (ps ! i)" using p(2) by (simp add: passed_def)
    then show ?thesis using False by auto
  qed
qed

lemma slots_gained:
  assumes ps: "slots (Suc k) k ps" and k: "k \<le> 203"
  shows "length (filter (passed 200 20) ps) = (if 4 \<le> k then 1 else 0)"
proof -
  have len: "length ps = 200" using ps by (simp add: slots_def)
  have "{i. i < length ps \<and> passed 200 20 (ps ! i)} = {i. i < 200 \<and> i + 4 = k}"
    using slots_passed[OF ps k] len by auto
  also have "\<dots> = (if 4 \<le> k then {k - 4} else {})" using k by auto
  finally show ?thesis by (simp add: length_filter_conv_card)
qed

lemma slots_mark:
  assumes ps: "slots (Suc k) k ps" and k: "k \<le> 203"
  shows "slots (Suc k) (Suc k) (map (mark 200 20) ps)"
proof -
  have len: "length ps = 200" using ps by (simp add: slots_def)
  have "slot (Suc k) (Suc k) i (map (mark 200 20) ps ! i)" if i: "i < 200" for i
  proof -
    have s: "slot (Suc k) k i (ps ! i)" using ps i by (simp add: slots_def)
    have pa: "passed 200 20 (ps ! i) \<longleftrightarrow> i + 4 = k" using slots_passed[OF ps k i] .
    have n: "map (mark 200 20) ps ! i = mark 200 20 (ps ! i)" using i len by simp
    show ?thesis
    proof (cases "Suc k < i + 6")
      case True
      then show ?thesis using s pa unfolding n mark_def slot_def by auto
    next
      case False
      then have "\<not> passed 200 20 (ps ! i)" using pa by auto
      then show ?thesis using s False unfolding n mark_def slot_def by simp
    qed
  qed
  then show ?thesis using len by (simp add: slots_def)
qed

lemma in_bounds_no_crossing:
  assumes "list_all (in_bounds default_config) ps"
  shows "landing_scan 200 370 y 20 (370, False) ps = (370, False)"
proof -
  have "\<not> crosses_top 200 370 y 20 p" if "p \<in> set ps" for p
  proof -
    have "yTop p \<le> 350" using assms that
      by (auto simp: list_all_iff in_bounds_def default_config_def)
    then show ?thesis by (simp add: crosses_top_def)
  qed
  then have "crossing_tops 200 370 y 20 ps = []" by (simp add: crossing_tops_def)
  then show ?thesis by (simp add: landing_scan_Min)
qed

lemma hits_any_iff: "hits_any ballX ballY r cfg ps \<longleftrightarrow> (\<exists>p \<in> set ps. hits ballX ballY r cfg p)"
  by (induction ps) simp_all

lemma high_platform_no_hit:
  assumes "yTop p \<le> 335"
  shows "\<not> hits 200 370 20 default_config p"
proof -
  let ?dx = "200 - (if 200 < plat_x p then plat_x p
                    else if 200 > plat_x p + width p then plat_x p + width p else 200)"
  let ?dy = "370 - (yTop p + 14)"
  have "21 \<le> ?dy" using assms by simp
  then have "21 * 21 \<le> ?dy * ?dy" by (intro mult_mono) simp_all
  moreover have "0 \<le> ?dx * ?dx" by simp
  ultimately have "400 \<le> ?dx * ?dx + ?dy * ?dy" by linarith
  then show ?thesis using assms by (simp add: hits_def default_config_def Let_def)
qed

lemma right_platform_no_hit:
  assumes "220 \<le> plat_x p"
  shows "\<not> hits 200 ballY 20 cfg p"
proof -
  let ?cy = "if ballY < yTop p then yTop p
             else if ballY > yTop p + platformHeight cfg then yTop p + platformHeight cfg else ballY"
  let ?dx = "200 - plat_x p"
  have "20 \<le> - ?dx" using assms by simp
  then have "20 * 20 \<le> (- ?dx) * (- ?dx)" by (intro mult_mono) simp_all
  moreover have "(- ?dx) * (- ?dx) = ?dx * ?dx" by (simp only: minus_mult_minus)
  ultimately have "400 \<le> ?dx * ?dx" by simp
  moreover have "0 \<le> (ballY - ?cy) * (ballY - ?cy)" by simp
  ultimately have "400 \<le> ?dx * ?dx + (ballY - ?cy) * (ballY - ?cy)" by linarith
  then show ?thesis using assms by (simp add: hits_def Let_def)
qed

lemma slots_no_hit:
  assumes ps: "slots (Suc k) kflag ps" and k: "k \<le> 203"
  shows "\<not> hits_any 200 370 20 default_config ps"
proof -
  have len: "length ps = 200" using ps by (simp add: slots_def)
  have "\<not> hits 200 370 20 default_config (ps ! i)" if i: "i < 200" for i
  proof -
    have s: "slot (Suc k) kflag i (ps ! i)" using ps i by (simp add: slots_def)
    show ?thesis
    proof (cases "Suc k < i + 6")
      case True
      have "0 \<le> real i" by simp
      then have "yTop (ps ! i) \<le> 335" using s True by (simp add: slot_def)
      then show ?thesis by (rule high_platform_no_hit)
    next
      case False
      have "220 \<le> 53260 - 260 * real (Suc k)" using k by (intro far_right) simp
      then have "220 \<le> plat_x (ps ! i)" using s False by (simp add: slot_def)
      then show ?thesis by (rule right_platform_no_hit)
    qed
  qed
  then show ?thesis using len by (auto simp: hits_any_iff in_set_conv_nth)
qed

lemma ground_landing:
  assumes "list_all (in_bounds default_config) (visited L)" and "370 < y"
  shows "resolveLanding L 200 370 y v 20 default_config =
           \<lparr> landed = True, landedOnGround = True, new_y = 370, new_vy = 0 \<rparr>"
proof -
  have g: "groundY default_config = 370" by (simp add: default_config_def)
  show ?thesis
    using assms(2) by (simp add: resolveLanding_def g in_bounds_no_crossing[OF assms(1)])
qed

lemma long_frame:
  assumes cfg: "config g = default_config"
    and run: "\<not> gameOver g" "\<not> levelComplete g"
    and b: "player_x (ball g) = 200" "player_y (ball g) = 370" "- 550 \<le> vy (ball g)"
    and L: "totalPlatforms (world g) = 200" "slots k k (platforms (world g))"
    and k: "k \<le> 203"
  shows "config (fst (update lowest_draw (13 / 11) False (g, ()))) = default_config"
    and "score (fst (update lowest_draw (13 / 11) False (g, ()))) =
           score g + (if 4 \<le> k then 1 else 0)"
    and "player_x (ball (fst (update lowest_draw (13 / 11) False (g, ())))) = 200"
    and "player_y (ball (fst (update lowest_draw (13 / 11) False (g, ())))) = 370"
    and "vy (ball (fst (update lowest_draw (13 / 11) False (g, ())))) = 0"
    and "hasLeftGround (ball (fst (update lowest_draw (13 / 11) False (g, ())))) =
           hasLeftGround (ball g)"
    and "jumpsRemaining (ball (fst (update lowest_draw (13 / 11) False (g, ())))) = 2"
    and "totalPlatforms (world (fst (update lowest_draw (13 / 11) False (g, ())))) = 200"
    and "slots (Suc k) (Suc k) (platforms (world (fst (update lowest_draw (13 / 11) False (g, ())))))"
    and "gameOver (fst (update lowest_draw (13 / 11) False (g, ()))) = hasLeftGround (ball g)"
    and "levelComplete (fst (update lowest_draw (13 / 11) False (g, ()))) \<longleftrightarrow>
           200 \<le> score g + (if 4 \<le> k then 1 else 0)"
proof -
  let ?g' = "fst (update lowest_draw (13 / 11) False (g, ()))"
  let ?ps = "platforms (world g)"
  let ?ps2 = "fst (recycle lowest_draw default_config (fst (shift_all 260 ?ps 0))
                   (snd (shift_all 260 ?ps 0)) ())"
  let ?L1 = "fst (scrolled lowest_draw (13 / 11) (g, ()))"
  let ?ld = "frame_landing lowest_draw (13 / 11) False (g, ())"
  have len: "length ?ps = 200" using L(2) by (simp add: slots_def)
  have vis: "visited (world g) = ?ps" "unvisited (world g) = []"
    using len L(1) by (simp_all add: visited_def unvisited_def)
  have sp: "scrollSpeed default_config = 220" by (simp add: default_config_def)
  have L1: "platforms ?L1 = ?ps2" "totalPlatforms ?L1 = 200"
    using L(1) by (simp_all add: scrolled_def scroll_def cfg vis sp case_prod_beta)
  have s2: "slots (Suc k) k ?ps2" using slots_scroll[OF L(2) k] .
  then have len2: "length ?ps2 = 200" by (simp add: slots_def)
  have vis1: "visited ?L1 = ?ps2" "unvisited ?L1 = []"
    using len2 L1 by (simp_all add: visited_def unvisited_def)
  have mb: "player_x (moved_ball (13 / 11) False g) = 200"
    "vy (moved_ball (13 / 11) False g) = vy (ball g) + 13000 / 11"
    "player_y (moved_ball (13 / 11) False g) = 370 + (vy (ball g) + 13000 / 11) * (13 / 11)"
    "hasLeftGround (moved_ball (13 / 11) False g) = hasLeftGround (ball g)"
    using b(1,2) by (simp_all add: moved_ball_def player_update_def cfg default_config_def Let_def)
  have "0 < vy (ball g) + 13000 / 11" using b(3) by simp
  then have "0 < (vy (ball g) + 13000 / 11) * (13 / 11)" by simp
  then have up: "370 < player_y (moved_ball (13 / 11) False g)" using mb(3) by simp
  have r: "radius default_config = 20" by (simp add: default_config_def)
  have ld: "?ld = \<lparr> landed = True, landedOnGround = True, new_y = 370, new_vy = 0 \<rparr>"
    unfolding frame_landing_def Let_def fst_conv cfg r mb(1) b(2)
    using slots_in_bounds[OF s2] up by (intro ground_landing) (simp_all add: vis1)
  note u = update_running[OF run, of lowest_draw "13 / 11" False "()"]
  have aw: "awardScore ?L1 200 20 =
      (int (length (filter (passed 200 20) ?ps2)), ?L1\<lparr>platforms := map (mark 200 20) ?ps2\<rparr>)"
    by (simp add: awardScore_def award_loop_eq vis1)
  show "config ?g' = default_config" using u(1) cfg by simp
  show sc: "score ?g' = score g + (if 4 \<le> k then 1 else 0)"
    unfolding u(4) cfg r b(1) aw using slots_gained[OF s2 k] by simp
  show "player_x (ball ?g') = 200" "player_y (ball ?g') = 370" "vy (ball ?g') = 0"
    "hasLeftGround (ball ?g') = hasLeftGround (ball g)" "jumpsRemaining (ball ?g') = 2"
    unfolding u(2) ld by (simp_all add: setGrounded_def mb)
  have w: "world ?g' = ?L1\<lparr>platforms := map (mark 200 20) ?ps2\<rparr>"
    unfolding u(3) cfg r b(1) aw by simp
  show "totalPlatforms (world ?g') = 200" unfolding w using L1 by simp
  show s3: "slots (Suc k) (Suc k) (platforms (world ?g'))"
    unfolding w using slots_mark[OF s2 k] by simp
  have visw: "visited (world ?g') = platforms (world ?g')"
    using s3 L1 unfolding w by (simp add: visited_def slots_def)
  have "\<not> checkCollision (world ?g') 200 370 20 default_config"
    unfolding checkCollision_def visw using slots_no_hit[OF s3 k] .
  then show "gameOver ?g' = hasLeftGround (ball g)"
    unfolding u(5) cfg r b(1) ld by simp
  show "levelComplete ?g' \<longleftrightarrow> 200 \<le> score g + (if 4 \<le> k then 1 else 0)"
    unfolding u(6) sc cfg by (simp add: default_config_def)
qed

lemma handleInput_released: "handleInput rv False gs = gs"
  by (simp add: handleInput_def case_prod_beta)

lemma start_lowest:
  "idle_game 0 (fst (start lowest_draw 450 ()))"
proof -
  have c: "config (scale_physics 450 new_game) = default_config"
    by (simp add: scale_physics_def new_game_def default_config_def Let_def)
  have w: "world (scale_physics 450 new_game) =
             \<lparr> totalPlatforms = 200, platforms = [], clouds = [] \<rparr>"
    by (simp add: scale_physics_def new_game_def default_config_def Let_def)
  let ?ps = "map (\<lambda>i. \<lparr> plat_x = 1000 + 260 * (real i + 1),
                   yTop = max 20 (350 - 15 * (real i + 1)),
                   width = 120, counted = False \<rparr>) [0..<200]"
  have g: "fst (generate lowest_draw default_config
                  \<lparr> totalPlatforms = 200, platforms = [], clouds = [] \<rparr> ()) =
           \<lparr> totalPlatforms = 200, platforms = ?ps,
             clouds = fst (gen_clouds lowest_draw default_config 10 ()) \<rparr>"
    by (simp add: generate_def gen_platforms_lowest Let_def case_prod_beta)
       (simp add: default_config_def)
  have "slot 0 0 i (?ps ! i)" if "i < 200" for i
    using that by (simp add: slot_def algebra_simps del: upt_Suc)
  then have s: "slots 0 0 ?ps" by (simp add: slots_def del: upt_Suc)
  have st: "fst (start lowest_draw 450 ()) =
      (scale_physics 450 new_game)
        \<lparr> ball := player_reset default_config (ball (scale_physics 450 new_game)),
          world := \<lparr> totalPlatforms = 200, platforms = ?ps,
             clouds = fst (gen_clouds lowest_draw default_config 10 ()) \<rparr>,
          score := 0, gameOver := False, levelComplete := False, cameraOffsetY := 0 \<rparr>"
    unfolding start_def reset_def by (simp add: c w g case_prod_beta Let_def del: upt_Suc)
  show ?thesis
    unfolding st idle_game_def using s
    by (simp add: c player_reset_def default_config_def del: upt_Suc)
qed

lemma idle_run_Suc: "idle_run (Suc k) = frame lowest_draw False False (13 / 11) (idle_run k)"
  by (simp add: idle_run_def)

lemma idle_run_idle: "k \<le> 203 \<Longrightarrow> idle_game k (fst (idle_run k))"
proof (induction k)
  case 0
  then show ?case using start_lowest by (simp add: idle_run_def)
next
  case (Suc k)
  then have i: "idle_game k (fst (idle_run k))" and k: "k \<le> 203" "k \<le> 202" by simp_all
  obtain g where g: "idle_run k = (g, ())" by (cases "idle_run k") simp
  have ig: "idle_game k g" using i g by simp
  have f: "idle_run (Suc k) = update lowest_draw (13 / 11) False (g, ())"
    by (simp add: idle_run_Suc frame_def handleInput_released g)
  have b: "player_x (ball g) = 200" "player_y (ball g) = 370" "- 550 \<le> vy (ball g)"
    using ig by (simp_all add: idle_game_def)
  note lf = long_frame[of g k, OF _ _ _ b _ _ k(1)]
  have pre: "config g = default_config" "\<not> gameOver g" "\<not> levelComplete g"
    "totalPlatforms (world g) = 200" "slots k k (platforms (world g))"
    "\<not> hasLeftGround (ball g)" "score g = (if 4 \<le> k then int k - 4 else 0)"
    using ig by (simp_all add: idle_game_def)
  note l = lf[OF pre(1,2,3,4,5)]
  have sc: "score g + (if 4 \<le> k then 1 else 0) = (if 4 \<le> Suc k then int (Suc k) - 4 else 0)"
    using pre(7) by auto
  have "\<not> 200 \<le> score g + (if 4 \<le> k then 1 else 0)"
    unfolding sc using k(2) by simp
  then show ?case
    unfolding f idle_game_def using l pre(6) sc by simp
qed

lemma idle_run_reachable: "reachable lowest_draw (idle_run k)"
proof (induction k)
  case 0
  then show ?case by (simp add: idle_run_def reachable_start)
next
  case (Suc k)
  then show ?case unfolding idle_run_Suc by (rule reachable_frame)
qed

text \<open>
  The claim as written fails on the default configuration with every draw in range:
  the player rests on the ground while 199 platforms pass (203 frames of 13/11 s), then
  jumps in the frame in which the 200th platform passes; that long frame brings the
  ball back to the ground, so it sets \<open>gameOver\<close> (ground touch after a jump) and
  \<open>levelComplete\<close> (score 200) together.
\<close>

theorem flags_exclusive_counterexample:
  "rng_ok lowest_draw \<and>
   reachable lowest_draw (frame lowest_draw True False (13 / 11) (idle_run 203)) \<and>
   gameOver (fst (frame lowest_draw True False (13 / 11) (idle_run 203))) \<and>
   levelComplete (fst (frame lowest_draw True False (13 / 11) (idle_run 203)))"
proof -
  obtain g where g: "idle_run 203 = (g, ())" by (cases "idle_run 203") simp
  have ig: "idle_game 203 g" using idle_run_idle[of 203] g by simp
  let ?j = "g\<lparr>ball := startJump default_config (ball g)\<rparr>"
  have hi: "handleInput lowest_draw True (g, ()) = (?j, ())"
    using ig by (simp add: handleInput_def idle_game_def canJump_def)
  have f: "frame lowest_draw True False (13 / 11) (idle_run 203) =
             update lowest_draw (13 / 11) False (?j, ())"
    by (simp add: frame_def g hi)
  have pre: "config ?j = default_config" "\<not> gameOver ?j" "\<not> levelComplete ?j"
    "player_x (ball ?j) = 200" "player_y (ball ?j) = 370" "- 550 \<le> vy (ball ?j)"
    "totalPlatforms (world ?j) = 200" "slots 203 203 (platforms (world ?j))"
    "hasLeftGround (ball ?j)" "score ?j = 199"
    using ig by (simp_all add: idle_game_def startJump_def default_config_def)
  note l = long_frame[OF pre(1-8), of ] 
  have "gameOver (fst (update lowest_draw (13 / 11) False (?j, ())))"
    using l(10) pre(9) by simp
  moreover have "levelComplete (fst (update lowest_draw (13 / 11) False (?j, ())))"
    using l(11) pre(10) by simp
  moreover have "reachable lowest_draw (frame lowest_draw True False (13 / 11) (idle_run 203))"
    using idle_run_reachable by (rule reachable_frame)
  ultimately show ?thesis unfolding f[symmetric] using rng_ok_lowest_draw by simp
qed

section \<open>Landing before collision\<close>

lemma standard_fields:
  assumes "standard cfg"
  shows "radius cfg = 20" "groundY cfg = 370" "minGap cfg = 260" "maxGap cfg = 420"
    "minPlatformWidth cfg = 120" "maxPlatformWidth cfg = 200" "minPlatformY cfg = 20"
    "stepUpMin cfg = 15" "stepUpMax cfg = 35" "platformHeight cfg = 14"
    "cfgTotalPlatforms cfg = 200"
  using assms by (cases cfg; simp add: standard_def default_config_def)+

lemma standard_draws:
  assumes "standard cfg"
  shows "draws_fit cfg" "minPlatformY cfg \<le> groundY cfg - 20"
  using standard_fields[OF assms] by (simp_all add: draws_fit_def castable_def)

lemma standard_gap:
  assumes "standard cfg" "rng_ok rv"
  shows "gap_in_range rv cfg"
proof -
  have "min 260 420 \<le> fst (rv 260 420 s) \<and> fst (rv 260 420 s) \<le> max 260 420" for s
    using assms(2) unfolding rng_ok_def by blast
  then have "260 \<le> fst (rv 260 420 s) \<and> fst (rv 260 420 s) \<le> 420" for s by simp
  then have "260 \<le> real_of_int (fst (rv 260 420 s)) \<and> real_of_int (fst (rv 260 420 s)) \<le> 420" for s
    by (metis of_int_le_iff of_int_numeral)
  then show ?thesis by (simp add: gap_in_range_def standard_fields[OF assms(1)])
qed

lemma standard_scaled: "standard (config (scale_physics h new_game))"
  by (simp add: standard_def scale_physics_def new_game_def default_config_def Let_def)

lemma apart_sym: "apart cfg p q = apart cfg q p"
  by (simp add: apart_def abs_minus_commute)

lemma apart_shift [simp]:
  "apart cfg (p\<lparr>plat_x := plat_x p - d\<rparr>) (q\<lparr>plat_x := plat_x q - d\<rparr>) = apart cfg p q"
  by (simp add: apart_def)

lemma sorted_wrt_apart_distinct:
  assumes "sorted_wrt (apart cfg) ps" "p \<in> set ps" "q \<in> set ps" "p \<noteq> q"
  shows "apart cfg p q"
proof -
  obtain i j where i: "i < length ps" "ps ! i = p" and j: "j < length ps" "ps ! j = q"
    using assms(2,3) by (auto simp: in_set_conv_nth)
  have "i \<noteq> j" using assms(4) i j by auto
  then consider "i < j" | "j < i" by linarith
  then show ?thesis
  proof cases
    case 1
    then show ?thesis using sorted_wrt_nth_less[OF assms(1) 1 j(1)] i j by simp
  next
    case 2
    then have "apart cfg q p" using sorted_wrt_nth_less[OF assms(1) 2 i(1)] i j by simp
    then show ?thesis by (simp add: apart_sym)
  qed
qed

lemma length_gen_platforms: "length (fst (gen_platforms rv cfg n cursor prevTop s)) = n"
  by (induction n arbitrary: cursor prevTop s) (simp_all add: case_prod_beta Let_def)

lemma gen_platforms_apart:
  assumes g: "gap_in_range rv cfg" "0 < minGap cfg"
  shows "sorted_wrt (apart cfg) (fst (gen_platforms rv cfg n cursor prevTop s)) \<and>
         (\<forall>p \<in> set (fst (gen_platforms rv cfg n cursor prevTop s)). cursor + minGap cfg \<le> plat_x p)"
proof (induction n arbitrary: cursor prevTop s)
  case 0
  then show ?case by simp
next
  case (Suc n)
  obtain gap w step s' where d: "draw3 rv cfg s = ((gap, w, step), s')"
    by (metis prod_cases3 surj_pair)
  have gp: "minGap cfg \<le> real_of_int gap" using draw3_gap(1)[OF g d] .
  let ?c = "cursor + of_int gap"
  let ?t = "max (minPlatformY cfg) (prevTop - of_int step)"
  let ?rest = "fst (gen_platforms rv cfg n ?c ?t s')"
  let ?p = "\<lparr> plat_x = ?c, yTop = ?t, width = of_int w, counted = False \<rparr>"
  have e: "fst (gen_platforms rv cfg (Suc n) cursor prevTop s) = ?p # ?rest"
    by (simp add: d case_prod_beta Let_def)
  have ih: "sorted_wrt (apart cfg) ?rest" "\<forall>q \<in> set ?rest. ?c + minGap cfg \<le> plat_x q"
    using Suc.IH[of ?c ?t s'] by blast+
  have "apart cfg ?p q" if "q \<in> set ?rest" for q
    using ih(2) that g(2) by (fastforce simp: apart_def)
  moreover have "cursor + minGap cfg \<le> plat_x q" if "q \<in> set ?rest" for q
    using ih(2) that g(2) gp by fastforce
  ultimately show ?case unfolding e using ih(1) gp by simp
qed

lemma recycle_apart:
  assumes g: "gap_in_range rv cfg" "0 < minGap cfg"
  shows "sorted_wrt (apart cfg) (pre @ ps) \<Longrightarrow> \<forall>p \<in> set (pre @ ps). plat_x p \<le> rm \<Longrightarrow>
         sorted_wrt (apart cfg) (pre @ fst (recycle rv cfg ps rm s))"
proof (induction ps arbitrary: pre rm s)
  case Nil
  then show ?case by simp
next
  case (Cons p ps)
  show ?case
  proof (cases "plat_x p + width p < - 60")
    case True
    obtain gap w step s' where d: "draw3 rv cfg s = ((gap, w, step), s')"
      by (metis prod_cases3 surj_pair)
    have gp: "minGap cfg \<le> real_of_int gap" using draw3_gap(1)[OF g d] .
    let ?p' = "\<lparr> plat_x = rm + of_int gap,
                  yTop = max (minPlatformY cfg) (yTop p - of_int step),
                  width = of_int w, counted = False \<rparr>"
    have e: "fst (recycle rv cfg (p # ps) rm s) = ?p' # fst (recycle rv cfg ps (rm + of_int gap) s')"
      using True by (simp add: d case_prod_beta Let_def)
    have far: "apart cfg ?p' q" "apart cfg q ?p'" if "plat_x q \<le> rm" for q
      using that gp by (simp_all add: apart_def)
    have le: "\<forall>q \<in> set (pre @ ps). plat_x q \<le> rm" using Cons.prems(2) by auto
    have 1: "sorted_wrt (apart cfg) ((pre @ [?p']) @ ps)"
      using Cons.prems(1) le far by (auto simp: sorted_wrt_append)
    have "0 \<le> real_of_int gap" using gp g(2) by simp
    then have "plat_x q \<le> rm + of_int gap" if "plat_x q \<le> rm" for q
      using that by simp
    then have 2: "\<forall>q \<in> set ((pre @ [?p']) @ ps). plat_x q \<le> rm + of_int gap"
      using le by auto
    from Cons.IH[OF 1 2, of s'] show ?thesis unfolding e by simp
  next
    case False
    have e: "fst (recycle rv cfg (p # ps) rm s) = p # fst (recycle rv cfg ps rm s)"
      using False by (simp add: case_prod_beta Let_def)
    from Cons.IH[of "pre @ [p]" rm s] Cons.prems show ?thesis unfolding e by simp
  qed
qed

lemma level_inv_generate:
  assumes "standard cfg" "rng_ok rv"
  shows "level_inv cfg (fst (generate rv cfg L s))"
proof -
  let ?ps = "fst (gen_platforms rv cfg (totalPlatforms L)
                    (of_int (screenWidth cfg) + 200) (groundY cfg - 20) s)"
  have p: "platforms (fst (generate rv cfg L s)) = ?ps"
    and t: "totalPlatforms (fst (generate rv cfg L s)) = totalPlatforms L"
    by (simp_all add: generate_def case_prod_beta Let_def)
  have v: "visited (fst (generate rv cfg L s)) = ?ps"
    unfolding visited_def p t by (simp add: length_gen_platforms)
  have g: "gap_in_range rv cfg" "0 < minGap cfg"
    using standard_gap[OF assms] standard_fields(3)[OF assms(1)] by simp_all
  show ?thesis
    unfolding level_inv_def v
    using gen_platforms_in_bounds[OF assms(2) standard_draws[OF assms(1)], of "groundY cfg - 20"]
      gen_platforms_apart[OF g]
    by simp
qed

lemma level_inv_scroll:
  assumes "standard cfg" "rng_ok rv" "level_inv cfg L"
  shows "level_inv cfg (fst (scroll rv dt cfg L s))"
proof -
  let ?d = "scrollSpeed cfg * dt"
  let ?ps1 = "fst (shift_all ?d (visited L) 0)"
  let ?M = "snd (shift_all ?d (visited L) 0)"
  have g: "gap_in_range rv cfg" "0 < minGap cfg"
    using standard_gap[OF assms(1,2)] standard_fields(3)[OF assms(1)] by simp_all
  have b: "list_all (in_bounds cfg) ?ps1"
    using assms(3) by (simp add: level_inv_def shift_all_map list_all_iff shift_in_bounds)
  have a: "sorted_wrt (apart cfg) ([] @ ?ps1)"
    using assms(3) by (simp add: level_inv_def shift_all_map sorted_wrt_map)
  have m: "\<forall>p \<in> set ([] @ ?ps1). plat_x p \<le> ?M"
    using shift_all_rightMost[of 0 ?d "visited L"] by (auto simp: shift_all_map)
  show ?thesis
    unfolding level_inv_def visited_scroll
    using recycle_in_bounds[OF assms(2) standard_draws[OF assms(1)] b]
      recycle_apart[OF g a m] by simp
qed

lemma in_bounds_mark [simp]: "in_bounds cfg (mark ballX r p) = in_bounds cfg p"
  by (simp add: mark_def in_bounds_def)

lemma apart_mark [simp]: "apart cfg (mark ballX r p) (mark bx r' q) = apart cfg p q"
  by (simp add: mark_def apart_def)

lemma level_inv_award:
  assumes "level_inv cfg L"
  shows "level_inv cfg (snd (awardScore L ballX r))"
  using assms
  by (simp add: level_inv_def visited_award list_all_iff sorted_wrt_map)

lemma game_inv_reset:
  assumes "standard (config g)" "rng_ok rv"
  shows "game_inv (fst (reset rv (g, s)))"
  using level_inv_generate[OF assms, of "world g" s] assms(1)
  by (simp add: game_inv_def reset_def case_prod_beta Let_def)

lemma game_inv_handleInput:
  assumes "game_inv g" "rng_ok rv"
  shows "game_inv (fst (handleInput rv pressed (g, s)))"
proof -
  have s: "standard (config g)" using assms(1) by (simp add: game_inv_def)
  have "game_inv (g\<lparr>ball := b\<rparr>)" for b
    using assms(1) by (simp add: game_inv_def)
  then show ?thesis
    using game_inv_reset[OF s assms(2), of s] assms(1)
    by (simp add: handleInput_def)
qed

lemma game_inv_update:
  assumes "game_inv g" "rng_ok rv"
  shows "game_inv (fst (update rv dt d (g, s)))"
proof (cases "gameOver g \<or> levelComplete g")
  case True
  then show ?thesis using assms(1) by (simp add: update_def)
next
  case False
  then have r: "\<not> gameOver g" "\<not> levelComplete g" by simp_all
  have s: "standard (config g)" and l: "level_inv (config g) (world g)"
    using assms(1) by (simp_all add: game_inv_def)
  have "level_inv (config g) (fst (scrolled rv dt (g, s)))"
    unfolding scrolled_def fst_conv snd_conv using level_inv_scroll[OF s assms(2) l] .
  then show ?thesis
    unfolding game_inv_def update_running(1)[OF r] update_running(3)[OF r]
    using s level_inv_award by simp
qed

lemma reachable_game_inv:
  assumes "rng_ok rv" "reachable rv gs"
  shows "game_inv (fst gs)"
  using assms(2)
proof (induction rule: reachable.induct)
  case (reachable_start screenH s)
  show ?case unfolding start_def
    using game_inv_reset[OF standard_scaled assms(1)] .
next
  case (reachable_frame gs spacePressed spaceDown dt)
  obtain g s where gs: "gs = (g, s)" by (cases gs)
  obtain g' s' where h: "handleInput rv spacePressed (g, s) = (g', s')"
    by (cases "handleInput rv spacePressed (g, s)")
  have "game_inv g'"
    using game_inv_handleInput[OF _ assms(1), of g spacePressed s] reachable_frame.IH gs h by simp
  then show ?case
    unfolding frame_def gs h using game_inv_update[OF _ assms(1)] by simp
qed

lemma hits_mark [simp]: "hits ballX ballY r cfg (mark bx r' p) = hits ballX ballY r cfg p"
  by (simp add: mark_def hits_def)

lemma tangent_no_hit:
  assumes "plat_x p \<le> ballX" "ballX \<le> plat_x p + width p" "0 < r"
  shows "\<not> hits ballX (yTop p - r) r cfg p"
  using assms by (simp add: hits_def Let_def)

lemma unique_crossing:
  assumes inv: "level_inv cfg L" and st: "standard cfg"
    and p: "p \<in> set (visited L)" "crosses_top ballX prevY y r p"
  shows "set (crossing_tops ballX prevY y r (visited L)) = {yTop p}"
proof -
  have sw: "sorted_wrt (apart cfg) (visited L)"
    and ib: "list_all (in_bounds cfg) (visited L)"
    using inv unfolding level_inv_def by blast+
  have wd: "width q \<le> 200" if "q \<in> set (visited L)" for q
  proof -
    have "in_bounds cfg q" using ib that unfolding list_all_iff by blast
    then show ?thesis unfolding in_bounds_def standard_fields(6)[OF st] by blast
  qed
  have same: "q = p" if q: "q \<in> set (visited L)" "crosses_top ballX prevY y r q" for q
  proof (rule ccontr)
    assume "q \<noteq> p"
    then have "p \<noteq> q" by blast
    then have "apart cfg p q"
      using sorted_wrt_apart_distinct[OF sw p(1) q(1)] by blast
    then have a: "260 \<le> \<bar>plat_x p - plat_x q\<bar>"
      unfolding apart_def standard_fields(3)[OF st] .
    have 1: "width p \<le> 200" and 2: "width q \<le> 200" using wd p(1) q(1) by blast+
    have 3: "plat_x p \<le> ballX" and 4: "ballX \<le> plat_x p + width p"
      using p(2) unfolding crosses_top_def by simp_all
    have 5: "plat_x q \<le> ballX" and 6: "ballX \<le> plat_x q + width q"
      using q(2) unfolding crosses_top_def by simp_all
    have "\<bar>plat_x p - plat_x q\<bar> \<le> 200" using 1 2 3 4 5 6 by linarith
    then show False using a by linarith
  qed
  have "filter (crosses_top ballX prevY y r) (visited L) \<noteq> []"
    using p by (simp add: filter_empty_conv) blast
  moreover have "t = yTop p" if "t \<in> set (crossing_tops ballX prevY y r (visited L))" for t
  proof -
    from that obtain q where "q \<in> set (visited L)" "crosses_top ballX prevY y r q" "t = yTop q"
      unfolding crossing_tops_def by auto
    then show ?thesis using same by blast
  qed
  moreover have "yTop p \<in> set (crossing_tops ballX prevY y r (visited L))"
    unfolding crossing_tops_def using p by simp
  ultimately show ?thesis by blast
qed

text \<open>
  Claim C1.  \<^verbatim>\<open>Game::update\<close> resolves the landing before it checks the collision: the
  check runs at the position that \<^verbatim>\<open>resolveLanding\<close> leaves.  In any frame of the running
  game (a state the main loop reaches, every draw within its range, neither flag set),
  if after the player's move and the scroll the ball crosses the top of a platform
  (\<open>prevY + radius \<le> yTop \<le> y + radius\<close>, \<open>ballX\<close> within \<open>[x, x + width]\<close>) with \<open>vy \<ge> 0\<close>,
  then the ball is snapped to \<open>y = yTop - radius\<close> with \<open>vy = 0\<close> and a platform landing is
  reported; at that position the collision test does not register the platform landed
  on, and the frame sets \<open>gameOver\<close> exactly when the ball strictly overlaps some other
  platform.
\<close>

theorem landing_before_collision:
  assumes "rng_ok rv" and "reachable rv gs"
    and "handleInput rv spacePressed gs = (g, s)"
    and "\<not> gameOver g" and "\<not> levelComplete g"
    and "p \<in> set (visited (fst (scrolled rv dt (g, s))))"
    and "crosses_top (player_x (moved_ball dt spaceDown g)) (player_y (ball g))
           (player_y (moved_ball dt spaceDown g)) (radius (config g)) p"
    and "0 \<le> vy (moved_ball dt spaceDown g)"
  shows "frame_landing rv dt spaceDown (g, s) =
           \<lparr> landed = True, landedOnGround = False,
             new_y = yTop p - radius (config g), new_vy = 0 \<rparr> \<and>
         player_y (ball (fst (update rv dt spaceDown (g, s)))) = yTop p - radius (config g) \<and>
         vy (ball (fst (update rv dt spaceDown (g, s)))) = 0 \<and>
         \<not> hits (player_x (ball (fst (update rv dt spaceDown (g, s)))))
                (player_y (ball (fst (update rv dt spaceDown (g, s)))))
                (radius (config g)) (config g) p \<and>
         (gameOver (fst (update rv dt spaceDown (g, s))) \<longleftrightarrow>
            (\<exists>q \<in> set (visited (fst (scrolled rv dt (g, s)))). q \<noteq> p \<and>
               hits (player_x (ball (fst (update rv dt spaceDown (g, s)))))
                 (player_y (ball (fst (update rv dt spaceDown (g, s)))))
                 (radius (config g)) (config g) q))"
proof -
  let ?cfg = "config g"
  let ?L1 = "fst (scrolled rv dt (g, s))"
  let ?b1 = "moved_ball dt spaceDown g"
  let ?g' = "fst (update rv dt spaceDown (g, s))"
  have gi: "game_inv g"
    using game_inv_handleInput[OF reachable_game_inv[OF assms(1,2)] assms(1),
        of spacePressed "snd gs"] assms(3) by simp
  then have st: "standard ?cfg" and li: "level_inv ?cfg (world g)"
    by (simp_all add: game_inv_def)
  have r: "radius ?cfg = 20" and gr: "groundY ?cfg = 370"
    using standard_fields[OF st] by simp_all
  have l1: "level_inv ?cfg ?L1"
    unfolding scrolled_def fst_conv snd_conv using level_inv_scroll[OF st assms(1) li] .
  have ct: "set (crossing_tops (player_x ?b1) (player_y (ball g)) (player_y ?b1) (radius ?cfg)
                   (visited ?L1)) = {yTop p}"
    using unique_crossing[OF l1 st assms(6,7)] .
  then have ne: "crossing_tops (player_x ?b1) (player_y (ball g)) (player_y ?b1) (radius ?cfg)
                   (visited ?L1) \<noteq> []"
    by auto
  have "in_bounds ?cfg p"
    using l1 assms(6) unfolding level_inv_def list_all_iff by blast
  then have "yTop p \<le> 350"
    unfolding in_bounds_def gr by simp
  then have lt: "Min (set (crossing_tops (player_x ?b1) (player_y (ball g)) (player_y ?b1)
                   (radius ?cfg) (visited ?L1))) < groundY ?cfg"
    unfolding ct gr by simp
  have ld: "frame_landing rv dt spaceDown (g, s) =
           \<lparr> landed = True, landedOnGround = False,
             new_y = yTop p - radius ?cfg, new_vy = 0 \<rparr>"
    unfolding frame_landing_def Let_def fst_conv
    using resolveLanding_on_platform[OF assms(8) ne lt] unfolding ct by simp
  note u = update_running[OF assms(4,5), of rv dt spaceDown s]
  have fx: "player_x (ball ?g') = player_x ?b1"
    and fy: "player_y (ball ?g') = yTop p - radius ?cfg"
    and fv: "vy (ball ?g') = 0"
    unfolding u(2) ld by (simp_all add: setGrounded_def)
  have px: "player_x ?b1 = player_x (ball g)"
    by (simp add: moved_ball_def player_update_def Let_def)
  have nh: "\<not> hits (player_x (ball ?g')) (player_y (ball ?g')) (radius ?cfg) ?cfg p"
    unfolding fx fy
    using assms(7) r by (intro tangent_no_hit) (simp_all add: crosses_top_def)
  have vw: "visited (world ?g') = map (mark (player_x (ball g)) (radius ?cfg)) (visited ?L1)"
    unfolding u(3) by (rule visited_award)
  have "gameOver ?g' \<longleftrightarrow>
          (\<exists>q \<in> set (visited ?L1). hits (player_x (ball ?g')) (player_y (ball ?g'))
              (radius ?cfg) ?cfg q)"
    unfolding u(5) ld fx fy px
    by (simp add: checkCollision_def hits_any_iff vw)
  then have go: "gameOver ?g' \<longleftrightarrow>
          (\<exists>q \<in> set (visited ?L1). q \<noteq> p \<and> hits (player_x (ball ?g')) (player_y (ball ?g'))
              (radius ?cfg) ?cfg q)"
    using nh by auto
  show ?thesis using ld fy fv nh go by blast
qed

lemma recycle_none:
  "\<forall>p \<in> set ps. \<not> plat_x p + width p < - 60 \<Longrightarrow> recycle rv cfg ps rm s = (ps, s)"
  by (induction ps arbitrary: rm s) simp_all

lemma early_nth:
  assumes "early d ps" "i < 200"
  shows "ps ! i = \<lparr> plat_x = 1260 - d + 260 * real i,
                     yTop = max 20 (335 - 15 * real i), width = 120, counted = False \<rparr>"
  using assms by (simp add: early_def)

lemma early_scroll:
  assumes e: "early d ps" and d: "d + c \<le> 1440"
  shows "fst (recycle rv cfg (fst (shift_all c ps 0)) (snd (shift_all c ps 0)) s) =
           map (\<lambda>p. p\<lparr>plat_x := plat_x p - c\<rparr>) ps"
    and "early (d + c) (map (\<lambda>p. p\<lparr>plat_x := plat_x p - c\<rparr>) ps)"
proof -
  have len: "length ps = 200" using e by (simp add: early_def)
  have "\<not> plat_x q + width q < - 60" if "q \<in> set (map (\<lambda>p. p\<lparr>plat_x := plat_x p - c\<rparr>) ps)" for q
  proof -
    from that obtain i where i: "i < 200" "q = (ps ! i)\<lparr>plat_x := plat_x (ps ! i) - c\<rparr>"
      using len by (auto simp: in_set_conv_nth)
    have "0 \<le> real i" by simp
    then show ?thesis using d unfolding i(2) early_nth[OF e i(1)] by simp
  qed
  then show "fst (recycle rv cfg (fst (shift_all c ps 0)) (snd (shift_all c ps 0)) s) =
           map (\<lambda>p. p\<lparr>plat_x := plat_x p - c\<rparr>) ps"
    by (simp add: shift_all_map recycle_none)
  show "early (d + c) (map (\<lambda>p. p\<lparr>plat_x := plat_x p - c\<rparr>) ps)"
    using len unfolding early_def by (simp add: early_nth[OF e])
qed

lemma early_not_passed:
  assumes e: "early d ps" and d: "d \<le> 1200" and i: "i < 200"
  shows "mark 200 20 (ps ! i) = ps ! i"
proof -
  have "0 \<le> real i" by simp
  then have "\<not> passed 200 20 (ps ! i)"
    using d unfolding early_nth[OF e i] by (simp add: passed_def)
  then show ?thesis by (simp add: mark_def)
qed

lemma early_award:
  assumes e: "early d ps" and d: "d \<le> 1200"
  shows "map (mark 200 20) ps = ps" and "length (filter (passed 200 20) ps) = 0"
proof -
  have len: "length ps = 200" using e by (simp add: early_def)
  show "map (mark 200 20) ps = ps"
    using len early_not_passed[OF e d] by (intro nth_equalityI) simp_all
  have "\<not> passed 200 20 q" if "q \<in> set ps" for q
  proof -
    from that obtain i where i: "i < 200" "q = ps ! i" using len by (auto simp: in_set_conv_nth)
    have "0 \<le> real i" by simp
    then show ?thesis using d unfolding i(2) early_nth[OF e i(1)] by (simp add: passed_def)
  qed
  then show "length (filter (passed 200 20) ps) = 0" by simp
qed

lemma early_no_hit:
  assumes e: "early d ps" and d: "d \<le> 1040"
  shows "\<not> hits_any 200 ballY 20 cfg ps"
proof -
  have len: "length ps = 200" using e by (simp add: early_def)
  have "\<not> hits 200 ballY 20 cfg q" if "q \<in> set ps" for q
  proof -
    from that obtain i where i: "i < 200" "q = ps ! i" using len by (auto simp: in_set_conv_nth)
    have "0 \<le> real i" by simp
    then have "220 \<le> plat_x q" using d unfolding i(2) early_nth[OF e i(1)] by simp
    then show ?thesis by (rule right_platform_no_hit)
  qed
  then show ?thesis by (simp add: hits_any_iff)
qed

lemma early_frame:
  assumes cfg: "config g = default_config"
    and run: "\<not> gameOver g" "\<not> levelComplete g"
    and bx: "player_x (ball g) = 200"
    and L: "totalPlatforms (world g) = 200" "early d (platforms (world g))"
    and d: "d + 220 * dt \<le> 1200"
  shows "visited (fst (scrolled lowest_draw dt (g, ()))) =
           map (\<lambda>p. p\<lparr>plat_x := plat_x p - 220 * dt\<rparr>) (platforms (world g))"
    and "platforms (world (fst (update lowest_draw dt spaceDown (g, ())))) =
           map (\<lambda>p. p\<lparr>plat_x := plat_x p - 220 * dt\<rparr>) (platforms (world g))"
    and "totalPlatforms (world (fst (update lowest_draw dt spaceDown (g, ())))) = 200"
    and "score (fst (update lowest_draw dt spaceDown (g, ()))) = score g"
    and "config (fst (update lowest_draw dt spaceDown (g, ()))) = default_config"
    and "early (d + 220 * dt) (map (\<lambda>p. p\<lparr>plat_x := plat_x p - 220 * dt\<rparr>) (platforms (world g)))"
proof -
  let ?ps = "platforms (world g)"
  let ?ps1 = "map (\<lambda>p. p\<lparr>plat_x := plat_x p - 220 * dt\<rparr>) ?ps"
  let ?L1 = "fst (scrolled lowest_draw dt (g, ()))"
  have len: "length ?ps = 200" using L(2) by (simp add: early_def)
  have vis: "visited (world g) = ?ps" "unvisited (world g) = []"
    using len L(1) by (simp_all add: visited_def unvisited_def)
  have sp: "scrollSpeed default_config = 220" by (simp add: default_config_def)
  have r: "radius default_config = 20" by (simp add: default_config_def)
  have d': "d + 220 * dt \<le> 1440" using d by simp
  note es = early_scroll(1)[OF L(2) d', of lowest_draw default_config "()"]
    early_scroll(2)[OF L(2) d']
  have L1: "platforms ?L1 = ?ps1" "totalPlatforms ?L1 = 200"
    using L(1) es(1) by (simp_all add: scrolled_def scroll_def cfg vis sp case_prod_beta)
  show e1: "early (d + 220 * dt) ?ps1" using es(2) .
  then have len1: "length ?ps1 = 200" by (simp add: early_def)
  show vis1: "visited ?L1 = ?ps1"
    using len1 L1 unfolding visited_def by simp
  have unv1: "unvisited ?L1 = []" using len1 L1 unfolding unvisited_def by simp
  note ea = early_award[OF e1 d]
  have aw: "awardScore ?L1 200 20 = (0, ?L1)"
    using ea L1(1) by (simp add: awardScore_def award_loop_eq vis1 unv1)
  note u = update_running[OF run, of lowest_draw dt spaceDown "()"]
  show "platforms (world (fst (update lowest_draw dt spaceDown (g, ())))) = ?ps1"
    and "totalPlatforms (world (fst (update lowest_draw dt spaceDown (g, ())))) = 200"
    unfolding u(3) cfg r bx aw using L1 by simp_all
  show "score (fst (update lowest_draw dt spaceDown (g, ()))) = score g"
    unfolding u(4) cfg r bx aw by simp
  show "config (fst (update lowest_draw dt spaceDown (g, ()))) = default_config"
    unfolding u(1) cfg ..
qed

lemma default_fields:
  "radius default_config = 20" "groundY default_config = 370" "gravity default_config = 1000"
  "scrollSpeed default_config = 220" "cfgTotalPlatforms default_config = 200"
  "jumpVelocity default_config = - 550"
  by (simp_all add: default_config_def)

lemma slots_early: "slots 0 0 ps \<Longrightarrow> early 0 ps"
  by (simp add: slots_def slot_def early_def)

lemma takeoff_state:
  shows "config (fst takeoff) = default_config"
    and "\<not> gameOver (fst takeoff)" and "\<not> levelComplete (fst takeoff)"
    and "player_x (ball (fst takeoff)) = 200" and "player_y (ball (fst takeoff)) = 300"
    and "vy (ball (fst takeoff)) = - 350"
    and "totalPlatforms (world (fst takeoff)) = 200"
    and "early 44 (platforms (world (fst takeoff)))"
proof -
  obtain g where g: "start lowest_draw 450 () = (g, ())"
    by (cases "start lowest_draw 450 ()") simp
  have ig: "idle_game 0 g" using start_lowest g by simp
  let ?j = "g\<lparr>ball := startJump default_config (ball g)\<rparr>"
  have hi: "handleInput lowest_draw True (g, ()) = (?j, ())"
    using ig by (simp add: handleInput_def idle_game_def canJump_def)
  have f: "takeoff = update lowest_draw (1 / 5) False (?j, ())"
    by (simp add: takeoff_def frame_def g hi)
  have pre: "config ?j = default_config" "\<not> gameOver ?j" "\<not> levelComplete ?j"
    "player_x (ball ?j) = 200" "totalPlatforms (world ?j) = 200"
    "early 0 (platforms (world ?j))" "score ?j = 0"
    "player_y (ball ?j) = 370" "vy (ball ?j) = - 550"
    using ig slots_early
    by (simp_all add: idle_game_def startJump_def default_fields)
  have d: "0 + 220 * (1 / 5) \<le> (1200::real)" by simp
  note ef = early_frame[OF pre(1-6) d]
  note u = update_running[OF pre(2,3), of lowest_draw "1 / 5" False "()"]
  have mb: "player_x (moved_ball (1 / 5) False ?j) = 200"
    "vy (moved_ball (1 / 5) False ?j) = - 350"
    "player_y (moved_ball (1 / 5) False ?j) = 300"
    using pre(4,8,9)
    by (simp_all add: moved_ball_def player_update_def pre(1) default_fields Let_def)
  have ld: "frame_landing lowest_draw (1 / 5) False (?j, ()) =
              \<lparr> landed = False, landedOnGround = False, new_y = 300, new_vy = - 350 \<rparr>"
    unfolding frame_landing_def Let_def fst_conv mb pre(8)
    by (simp add: resolveLanding_def pre(1) default_fields)
  have e44: "early 44 (platforms (world (fst takeoff)))"
    unfolding f ef(2) using ef(6) by simp
  show "config (fst takeoff) = default_config" unfolding f using ef(5) .
  show "totalPlatforms (world (fst takeoff)) = 200" unfolding f using ef(3) .
  show "early 44 (platforms (world (fst takeoff)))" using e44 .
  show "player_x (ball (fst takeoff)) = 200" "player_y (ball (fst takeoff)) = 300"
    "vy (ball (fst takeoff)) = - 350"
    unfolding f u(2) ld by (simp_all add: setGrounded_def mb)
  have vis: "visited (world (fst takeoff)) = platforms (world (fst takeoff))"
    using e44 ef(3) unfolding f visited_def early_def by simp
  have c: "\<not> checkCollision (world (fst takeoff)) 200 300 20 default_config"
    unfolding checkCollision_def vis using early_no_hit[OF e44] by simp
  show "\<not> gameOver (fst takeoff)"
    using c unfolding f u(5) ld pre(1,4) by (simp add: default_fields)
  show "\<not> levelComplete (fst takeoff)"
    unfolding f u(6) ef(4) pre(1,7) by (simp add: default_fields)
qed

theorem landing_before_collision_witness:
  "rng_ok lowest_draw \<and> reachable lowest_draw takeoff \<and>
   handleInput lowest_draw False takeoff = (fst takeoff, ()) \<and>
   \<not> gameOver (fst takeoff) \<and> \<not> levelComplete (fst takeoff) \<and>
   landing_platform \<in> set (visited (fst (scrolled lowest_draw 5 (fst takeoff, ())))) \<and>
   crosses_top (player_x (moved_ball 5 False (fst takeoff))) (player_y (ball (fst takeoff)))
     (player_y (moved_ball 5 False (fst takeoff))) (radius (config (fst takeoff)))
     landing_platform \<and>
   0 \<le> vy (moved_ball 5 False (fst takeoff)) \<and>
   player_y (ball (fst (update lowest_draw 5 False (fst takeoff, ())))) = 315 \<and>
   vy (ball (fst (update lowest_draw 5 False (fst takeoff, ())))) = 0 \<and>
   \<not> gameOver (fst (update lowest_draw 5 False (fst takeoff, ())))"
proof -
  let ?g = "fst takeoff"
  let ?ps = "platforms (world ?g)"
  let ?ps1 = "map (\<lambda>p. p\<lparr>plat_x := plat_x p - 220 * 5\<rparr>) ?ps"
  let ?g' = "fst (update lowest_draw 5 False (?g, ()))"
  note t = takeoff_state
  have h2: "reachable lowest_draw takeoff"
    unfolding takeoff_def by (intro reachable_frame reachable_start)
  have h3: "handleInput lowest_draw False takeoff = (?g, ())"
    by (simp add: handleInput_released prod_eq_iff)
  have d: "44 + 220 * 5 \<le> (1200::real)" by simp
  note ef = early_frame[OF t(1,2,3,4,7,8) d]
  have len: "length ?ps = 200" using t(8) by (simp add: early_def)
  have nth1: "?ps1 ! i = \<lparr> plat_x = 116 + 260 * real i,
                     yTop = max 20 (335 - 15 * real i), width = 120, counted = False \<rparr>"
    if "i < 200" for i
    using that len by (simp add: early_nth[OF t(8)])
  have p0: "?ps1 ! 0 = landing_platform" using nth1[of 0] by (simp add: landing_platform_def)
  moreover have "?ps1 ! 0 \<in> set ?ps1" using len by (intro nth_mem) simp
  ultimately have h6: "landing_platform \<in> set (visited (fst (scrolled lowest_draw 5 (?g, ()))))"
    unfolding ef(1) by simp
  have mb: "player_x (moved_ball 5 False ?g) = 200"
    "vy (moved_ball 5 False ?g) = 4650"
    "player_y (moved_ball 5 False ?g) = 23550"
    using t(4,5,6)
    by (simp_all add: moved_ball_def player_update_def t(1) default_fields Let_def)
  have r: "radius (config ?g) = 20" by (simp add: t(1) default_fields)
  have h7: "crosses_top (player_x (moved_ball 5 False ?g)) (player_y (ball ?g))
     (player_y (moved_ball 5 False ?g)) (radius (config ?g)) landing_platform"
    unfolding mb r t(5) by (simp add: crosses_top_def landing_platform_def)
  have h8: "0 \<le> vy (moved_ball 5 False ?g)" unfolding mb by simp
  note c = landing_before_collision [OF rng_ok_lowest_draw h2 h3 t(2,3) h6 h7 h8]
  have y: "player_y (ball ?g') = 315" and v: "vy (ball ?g') = 0"
    using c by (simp_all add: r landing_platform_def)
  have x: "player_x (ball ?g') = 200"
    unfolding update_running(2)[OF t(2,3)] by (simp add: setGrounded_def mb Let_def)
  have "\<not> hits 200 315 20 (config ?g) q" if q: "q \<in> set ?ps1" "q \<noteq> landing_platform" for q
  proof -
    from q(1) obtain i where i: "i < 200" "q = ?ps1 ! i"
      using len by (auto simp: in_set_conv_nth)
    have "i \<noteq> 0"
    proof
      assume "i = 0"
      then have "q = landing_platform" using i(2) p0 by simp
      then show False using q(2) by simp
    qed
    then have "1 \<le> real i" by simp
    then have "220 \<le> plat_x q" unfolding i(2) nth1[OF i(1)] by simp
    then show ?thesis by (rule right_platform_no_hit)
  qed
  then have "\<not> gameOver ?g'"
    using c unfolding x y r ef(1) by blast
  then show ?thesis
    using rng_ok_lowest_draw h2 h3 t(2,3) h6 h7 h8 y v by blast
qed

end
